theory Spec2Isabelle
  imports Main "HOL-Library.Char_ord" "HOL-Library.List_Lexorder"
begin

section \<open>The platform: Go standard-library routines the builder calls\<close>

text \<open>
  Go strings and byte slices are sequences of bytes; \<^typ>\<open>char\<close> is a byte, so both are
  modelled by \<^typ>\<open>string\<close>.  A Go \<open>error\<close> value is a message.
\<close>

type_synonym bytes = string

datatype error = Error string

text \<open>
  A Go \<open>map[string]string\<close> is an association list with pairwise distinct keys.  The order
  of the list is the order in which the runtime enumerates the map in a \<open>range\<close>
  statement: the language leaves that order unspecified, so two lists with the same set
  of pairs stand for the same map, enumerated in two ways.
\<close>

type_synonym gomap = "(string \<times> string) list"

definition same_map :: "gomap \<Rightarrow> gomap \<Rightarrow> bool" where
  "same_map m m' = (distinct (map fst m) \<and> distinct (map fst m') \<and> set m = set m')"

subsection \<open>Bytes\<close>

definition isLower :: "char \<Rightarrow> bool" where
  "isLower c = (CHR ''a'' \<le> c \<and> c \<le> CHR ''z'')"

definition isUpper :: "char \<Rightarrow> bool" where
  "isUpper c = (CHR ''A'' \<le> c \<and> c \<le> CHR ''Z'')"

definition isDigit :: "char \<Rightarrow> bool" where
  "isDigit c = (CHR ''0'' \<le> c \<and> c \<le> CHR ''9'')"

definition toUpperByte :: "char \<Rightarrow> char" where
  "toUpperByte c =
     (case map_of (zip ''abcdefghijklmnopqrstuvwxyz'' ''ABCDEFGHIJKLMNOPQRSTUVWXYZ'') c of
        Some u \<Rightarrow> u | None \<Rightarrow> c)"

definition toLowerByte :: "char \<Rightarrow> char" where
  "toLowerByte c =
     (case map_of (zip ''ABCDEFGHIJKLMNOPQRSTUVWXYZ'' ''abcdefghijklmnopqrstuvwxyz'') c of
        Some l \<Rightarrow> l | None \<Rightarrow> c)"

text \<open>\<open>strings.ToUpper\<close>, on the ASCII strings the verb methods pass.\<close>

definition ToUpper :: "string \<Rightarrow> string" where
  "ToUpper s = map toUpperByte s"

text \<open>
  The token bytes of RFC 7230, which \<open>net/http\<close> accepts in a method name and
  \<open>net/textproto\<close> in a header key: letters, digits and
  \<open>! # $ % & ' * + - . ^ _ ` | ~\<close>.
\<close>

definition isTokenByte :: "char \<Rightarrow> bool" where
  "isTokenByte c = (isLower c \<or> isUpper c \<or> isDigit c \<or>
     c \<in> set [CHR ''!'', CHR ''#'', CHR ''$'', CHR ''%'', CHR ''&'', CHR 0x27, CHR ''*'',
                CHR ''+'', CHR ''-'', CHR ''.'', CHR ''^'', CHR ''_'', CHR 0x60, CHR ''|'',
                CHR ''~''])"

subsection \<open>Header keys: \<open>textproto.CanonicalMIMEHeaderKey\<close>\<close>

text \<open>
  A key holding a byte that is not a token byte is returned as it is.  Otherwise the
  first letter and every letter after a hyphen become upper case and all other letters
  lower case.
\<close>

fun canonicalBytes :: "bool \<Rightarrow> string \<Rightarrow> string" where
  "canonicalBytes upper [] = []"
| "canonicalBytes upper (c # cs) =
     (let c' = (if upper then toUpperByte c else toLowerByte c)
      in c' # canonicalBytes (c' = CHR ''-'') cs)"

definition CanonicalMIMEHeaderKey :: "string \<Rightarrow> string" where
  "CanonicalMIMEHeaderKey s = (if list_all isTokenByte s then canonicalBytes True s else s)"

subsection \<open>Query strings: \<open>url.QueryEscape\<close> and \<open>url.Values\<close>\<close>

text \<open>
  \<open>shouldEscape\<close> in the mode \<open>encodeQueryComponent\<close>: letters, digits and
  \<open>- _ . ~\<close> stay, every other byte is escaped.  A space becomes \<open>+\<close>, any other
  escaped byte \<open>%XX\<close> with upper-case hexadecimal digits.
\<close>

definition shouldEscape :: "char \<Rightarrow> bool" where
  "shouldEscape c =
     (\<not> (isLower c \<or> isUpper c \<or> isDigit c \<or>
          c \<in> set [CHR ''-'', CHR ''_'', CHR ''.'', CHR ''~'']))"

definition upperhex :: string where
  "upperhex = ''0123456789ABCDEF''"

definition escapeByte :: "char \<Rightarrow> string" where
  "escapeByte c =
     (if shouldEscape c then
        (if c = CHR '' '' then ''+''
         else [CHR ''%'', upperhex ! ((of_char c :: nat) div 16),
               upperhex ! ((of_char c :: nat) mod 16)])
      else [c])"

definition QueryEscape :: "string \<Rightarrow> string" where
  "QueryEscape s = concat (map escapeByte s)"

text \<open>
  \<open>url.Values\<close> is a \<open>map[string][]string\<close>.  \<open>Add\<close> appends a value to the list
  of its key.  \<open>Encode\<close> sorts the keys and writes \<open>key=value\<close> for every value,
  with \<open>&\<close> before each pair but the first.
\<close>

type_synonym Values = "(string \<times> string list) list"

fun Values_Add :: "Values \<Rightarrow> string \<Rightarrow> string \<Rightarrow> Values" where
  "Values_Add [] key val = [(key, [val])]"
| "Values_Add ((k, vs) # rest) key val =
     (if k = key then (k, vs @ [val]) # rest else (k, vs) # Values_Add rest key val)"

fun writePairs :: "string \<Rightarrow> (string \<times> string) list \<Rightarrow> string" where
  "writePairs buf [] = buf"
| "writePairs buf ((k, v) # ps) =
     writePairs ((if buf \<noteq> [] then buf @ ''&'' else buf) @ QueryEscape k @ ''='' @ QueryEscape v) ps"

definition Values_Encode :: "Values \<Rightarrow> string" where
  "Values_Encode v =
     (if v = [] then []
      else writePairs []
             (concat (map (\<lambda>k. map (Pair k) (case map_of v k of None \<Rightarrow> [] | Some vs \<Rightarrow> vs))
                          (sort (map fst v)))))"

subsection \<open>Basic authentication: \<open>base64.StdEncoding\<close>\<close>

definition encodeStd :: string where
  "encodeStd = ''ABCDEFGHIJKLMNOPQRSTUVWXYZabcdefghijklmnopqrstuvwxyz0123456789+/''"

fun base64 :: "nat list \<Rightarrow> string" where
  "base64 (a # b # c # rest) =
     [encodeStd ! (a div 4), encodeStd ! ((a mod 4) * 16 + b div 16),
      encodeStd ! ((b mod 16) * 4 + c div 64), encodeStd ! (c mod 64)] @ base64 rest"
| "base64 [a, b] =
     [encodeStd ! (a div 4), encodeStd ! ((a mod 4) * 16 + b div 16),
      encodeStd ! ((b mod 16) * 4), CHR ''='']"
| "base64 [a] = [encodeStd ! (a div 4), encodeStd ! ((a mod 4) * 16), CHR ''='', CHR ''='']"
| "base64 [] = []"

definition EncodeToString :: "bytes \<Rightarrow> string" where
  "EncodeToString s = base64 (map of_char s)"

subsection \<open>Multipart bodies: \<open>multipart.Writer\<close>\<close>

text \<open>
  The writer holds its boundary and whether a part is open (\<open>lastpart\<close> is not nil).
  It writes into the buffer it was created over, which is the builder's
  \<open>multipartBuffer\<close>: every operation takes that buffer and returns it extended.
\<close>

record Writer =
  boundary :: string
  lastpart :: bool

text \<open>
  \<open>escapeQuotes\<close> is the writer's \<open>quoteEscaper\<close>: a backslash and a double quote get a
  backslash before them, a carriage return becomes \<open>%0D\<close> and a line feed \<open>%0A\<close>.  A
  percent sign stays as it is, so two names can have one escaped form.
\<close>

definition CRLF :: string where
  "CRLF = [CHR 0x0D, CHR 0x0A]"

definition escapeQuotes :: "string \<Rightarrow> string" where
  "escapeQuotes s =
     concat (map (\<lambda>c. if c = CHR 0x5C then [CHR 0x5C, CHR 0x5C]
                        else if c = CHR 0x22 then [CHR 0x5C, CHR 0x22]
                        else if c = CHR 0x0D then ''%0D''
                        else if c = CHR 0x0A then ''%0A'' else [c]) s)"

definition CreatePart :: "Writer \<Rightarrow> bytes \<Rightarrow> (string \<times> string) list \<Rightarrow> Writer \<times> bytes" where
  "CreatePart w buf header =
     (w\<lparr>lastpart := True\<rparr>,
      buf @ (if lastpart w then CRLF @ ''--'' @ boundary w @ CRLF
             else ''--'' @ boundary w @ CRLF)
          @ concat (map (\<lambda>(k, v). k @ '': '' @ v @ CRLF) (sort_key fst header))
          @ CRLF)"

definition CreateFormField :: "Writer \<Rightarrow> bytes \<Rightarrow> string \<Rightarrow> Writer \<times> bytes" where
  "CreateFormField w buf fieldname =
     CreatePart w buf
       [(''Content-Disposition'',
         ''form-data; name='' @ [CHR 0x22] @ escapeQuotes fieldname @ [CHR 0x22])]"

definition WriteField :: "Writer \<Rightarrow> bytes \<Rightarrow> string \<Rightarrow> string \<Rightarrow> Writer \<times> bytes" where
  "WriteField w buf fieldname val =
     (case CreateFormField w buf fieldname of (w', buf') \<Rightarrow> (w', buf' @ val))"

definition CreateFormFile :: "Writer \<Rightarrow> bytes \<Rightarrow> string \<Rightarrow> string \<Rightarrow> Writer \<times> bytes" where
  "CreateFormFile w buf fieldname filename =
     CreatePart w buf
       [(''Content-Disposition'',
         ''form-data; name='' @ [CHR 0x22] @ escapeQuotes fieldname @ [CHR 0x22]
           @ ''; filename='' @ [CHR 0x22] @ escapeQuotes filename @ [CHR 0x22]),
        (''Content-Type'', ''application/octet-stream'')]"

definition Writer_Close :: "Writer \<Rightarrow> bytes \<Rightarrow> Writer \<times> bytes" where
  "Writer_Close w buf =
     (w\<lparr>lastpart := False\<rparr>, buf @ CRLF @ ''--'' @ boundary w @ ''--'' @ CRLF)"

text \<open>The boundary is quoted when it holds a space or one of \<open>( ) < > @ , ; : \ " / [ ] ? =\<close>.\<close>

definition FormDataContentType :: "Writer \<Rightarrow> string" where
  "FormDataContentType w =
     (let b = boundary w;
          b' = (if list_ex (\<lambda>c. c \<in> set (''()<>@,;:'' @ [CHR 0x5C, CHR 0x22] @ ''/[]?= '')) b
                then [CHR 0x22] @ b @ [CHR 0x22] else b)
      in ''multipart/form-data; boundary='' @ b')"

subsection \<open>Requests, responses and clients of \<open>net/http\<close>\<close>

text \<open>
  A context is the background context, which is never done, or one the caller made;
  the flag of the latter says whether its \<open>Done\<close> channel is closed when the transport
  looks at it.
\<close>

datatype context_Context = Background | WithCancel bool

text \<open>
  \<open>http.Header\<close> is a \<open>map[string][]string\<close>; \<open>Set\<close> replaces the values of the
  canonical form of the key by the one value given.
\<close>

type_synonym Header = "string \<rightharpoonup> string list"

definition Header_Set :: "Header \<Rightarrow> string \<Rightarrow> string \<Rightarrow> Header" where
  "Header_Set h key val = h(CanonicalMIMEHeaderKey key \<mapsto> [val])"

record http_Request =
  Method :: string
  URL :: string
  Host :: string
  Header :: Header
  ReqBody :: "bytes option"
  Ctx :: context_Context

record http_Response =
  StatusCode :: int
  RespBody :: bytes

datatype Transport = DefaultTransport | Transport nat

record Client =
  ClientTransport :: Transport
  Timeout :: int
  Jar :: "nat option"

definition SetBasicAuth :: "http_Request \<Rightarrow> string \<Rightarrow> string \<Rightarrow> http_Request" where
  "SetBasicAuth r username password =
     r\<lparr>Header := Header_Set (Header r) ''Authorization''
                    (''Basic '' @ EncodeToString (username @ '':'' @ password))\<rparr>"

section \<open>The data model of \<open>request.go\<close>\<close>

text \<open>
  A Go function value is a reference to a closure: a hook is the identity of its
  closure, and the environment below says what each closure does when it is called.
\<close>

type_synonym BeforeRequestHook = nat
type_synonym AfterResponseHook = nat
type_synonym ErrorHook = nat

text \<open>
  \<open>formVals\<close> is a \<open>*bytes.Buffer\<close>: nil, a buffer of its own made by
  \<open>bytes.NewBuffer\<close>, or the address of the builder's own \<open>multipartBuffer\<close>, whose
  content is then read through the builder.
\<close>

datatype BufferPtr = NilBuffer | NewBuffer bytes | MultipartBufferPtr

record Request =
  transport :: "Transport option"
  client :: "Client option"
  cookie :: "nat option"
  timeout :: int
  formVals :: BufferPtr
  multipartBuffer :: bytes
  queryVals :: string
  headers :: gomap
  writer :: "Writer option"
  contentType :: string
  basicUser :: string
  basicPasswd :: string
  beforeRequestHooks :: "BeforeRequestHook list"
  afterResponseHooks :: "AfterResponseHook list"
  errorHooks :: "ErrorHook list"
  ctx :: "context_Context option"

text \<open>\<open>FileBody\<close> is an \<open>io.Reader\<close>: what reading it to its end yields.\<close>

record MultipartParam =
  FieldName :: string
  FileName :: string
  FileBody :: "error + bytes"

record Response =
  resp :: "http_Response option"

text \<open>The values a \<open>map[string]interface{}\<close> holds, as far as \<open>json.Marshal\<close> tells them apart.\<close>

datatype jvalue =
  JNull | JBool bool | JNumber int | JString string | JArray "jvalue list"
  | JObject "(string \<times> jvalue) list" | JUnsupported

text \<open>
  The environment of a run: the parts of the platform whose results the builder only
  passes on, and the closures of the hooks.
  \<^item> \<open>url_Parse\<close>: \<open>url.Parse\<close>, giving the host of the URL or the parse error;
  \<^item> \<open>client_Do\<close>: \<open>(*http.Client).Do\<close>, the network exchange;
  \<^item> \<open>json_Marshal\<close>: \<open>json.Marshal\<close>;
  \<^item> \<open>randomBoundary\<close>: the boundary \<open>multipart.NewWriter\<close> draws;
  \<^item> \<open>os_Open\<close>: \<open>os.Open\<close>, giving the open error or what reading the file yields;
  \<^item> \<open>runBeforeRequestHook\<close>, \<open>runAfterResponseHook\<close>, \<open>runErrorHook\<close>: what the
    closure does to the value it gets a pointer to, and the error it returns.

  A hook is a function that returns: a hook that does not return, or that calls a verb
  method of the builder it is handed, is not described.  A hook may change any field of
  the builder, the hook lists included.
\<close>

record env =
  url_Parse :: "string \<Rightarrow> error + string"
  client_Do :: "Client \<Rightarrow> http_Request \<Rightarrow> error + http_Response"
  json_Marshal :: "(string \<times> jvalue) list \<Rightarrow> error + bytes"
  randomBoundary :: string
  os_Open :: "string \<Rightarrow> error + (error + bytes)"
  runBeforeRequestHook :: "BeforeRequestHook \<Rightarrow> Request \<Rightarrow> Request \<times> error option"
  runAfterResponseHook :: "AfterResponseHook \<Rightarrow> Response \<Rightarrow> Response \<times> error option"
  runErrorHook :: "ErrorHook \<Rightarrow> Request \<Rightarrow> error \<Rightarrow> Request"

text \<open>
  \<open>http.NewRequest(method, url, body)\<close> is
  \<open>http.NewRequestWithContext(context.Background(), method, url, body)\<close>: it refuses a
  method that is not a token and a URL that does not parse, and returns a request with
  no header, the host of the URL and the background context.
\<close>

definition http_NewRequest :: "env \<Rightarrow> string \<Rightarrow> string \<Rightarrow> bytes option \<Rightarrow> error + http_Request" where
  "http_NewRequest E method url body =
     (let method = (if method = [] then ''GET'' else method) in
      if \<not> list_all isTokenByte method then Inl (Error ''net/http: invalid method'')
      else case url_Parse E url of
             Inl err \<Rightarrow> Inl err
           | Inr host \<Rightarrow>
               Inr \<lparr>Method = method, URL = url, Host = host, Header = Map.empty,
                    ReqBody = body, Ctx = Background\<rparr>)"

definition NewWriter :: "env \<Rightarrow> Writer" where
  "NewWriter E = \<lparr>boundary = randomBoundary E, lastpart = False\<rparr>"

text \<open>
  What the platform calls and the hooks of a dispatch were, in order: the observable
  behaviour of \<open>makeRequest\<close>.
\<close>

datatype event =
  CallBeforeRequestHook BeforeRequestHook Request
  | CallNewRequest string string "bytes option"
  | CallDo Client http_Request
  | CallErrorHook ErrorHook Request error
  | CallAfterResponseHook AfterResponseHook Response

record outcome =
  result :: "error + Response"
  builder :: Request
  trace :: "event list"

section \<open>The builder: the functions of \<open>request.go\<close>\<close>

text \<open>
  A method with a pointer receiver takes the builder and returns it updated.  A method
  that can panic returns \<open>Inl\<close> of the value it panics with.
\<close>

definition zeroRequest :: Request where
  "zeroRequest =
     \<lparr>transport = None, client = None, cookie = None, timeout = 0, formVals = NilBuffer,
      multipartBuffer = [], queryVals = [], headers = [], writer = None, contentType = [],
      basicUser = [], basicPasswd = [], beforeRequestHooks = [], afterResponseHooks = [],
      errorHooks = [], ctx = None\<rparr>"

text \<open>An \<open>Option\<close> is what its \<open>apply\<close> does to the builder.\<close>

definition NewRequest :: "(Request \<Rightarrow> Request) list \<Rightarrow> Request" where
  "NewRequest opts = foldl (\<lambda>r opt. opt r) zeroRequest opts"

definition createClient :: "Request \<Rightarrow> Client \<times> Request" where
  "createClient req =
     (let tr = (case transport req of None \<Rightarrow> DefaultTransport | Some t \<Rightarrow> t)
      in case client req of
           None \<Rightarrow>
             (let c = \<lparr>ClientTransport = tr, Timeout = timeout req, Jar = cookie req\<rparr>
              in (c, req\<lparr>client := Some c\<rparr>))
         | Some c \<Rightarrow> (c, req))"

definition JSON :: "env \<Rightarrow> Request \<Rightarrow> (string \<times> jvalue) list \<Rightarrow> error + Request" where
  "JSON E req jsonBody =
     (case json_Marshal E jsonBody of
        Inl err \<Rightarrow> Inl err
      | Inr data \<Rightarrow> Inr (req\<lparr>formVals := NewBuffer data, contentType := ''application/json''\<rparr>))"

definition addAll :: "gomap \<Rightarrow> Values" where
  "addAll formValues = foldl (\<lambda>vals (key, val). Values_Add vals key val) [] formValues"

definition FormData :: "Request \<Rightarrow> gomap \<Rightarrow> Request" where
  "FormData req formValues =
     req\<lparr>formVals := NewBuffer (Values_Encode (addAll formValues)),
         contentType := ''application/x-www-form-urlencoded''\<rparr>"

definition Body :: "Request \<Rightarrow> bytes \<Rightarrow> Request" where
  "Body req formValues =
     req\<lparr>formVals := NewBuffer formValues, contentType := ''application/octet-stream''\<rparr>"

definition Text :: "Request \<Rightarrow> string \<Rightarrow> Request" where
  "Text req formValues = req\<lparr>formVals := NewBuffer formValues, contentType := ''text/plain''\<rparr>"

definition Query :: "Request \<Rightarrow> gomap \<Rightarrow> Request" where
  "Query req formValues =
     req\<lparr>queryVals := Values_Encode (addAll formValues),
         contentType := ''application/x-www-form-urlencoded''\<rparr>"

definition Headers :: "Request \<Rightarrow> gomap \<Rightarrow> Request" where
  "Headers req headerVals = req\<lparr>headers := headerVals\<rparr>"

definition BasicAuth :: "Request \<Rightarrow> string \<Rightarrow> string \<Rightarrow> Request" where
  "BasicAuth req username password = req\<lparr>basicUser := username, basicPasswd := password\<rparr>"

definition getWriter :: "env \<Rightarrow> Request \<Rightarrow> Writer" where
  "getWriter E req = (case writer req of None \<Rightarrow> NewWriter E | Some w \<Rightarrow> w)"

fun writeFields :: "Writer \<Rightarrow> bytes \<Rightarrow> gomap \<Rightarrow> Writer \<times> bytes" where
  "writeFields w buf [] = (w, buf)"
| "writeFields w buf ((key, val) # rest) =
     (case WriteField w buf key val of (w', buf') \<Rightarrow> writeFields w' buf' rest)"

definition MultipartFormData :: "env \<Rightarrow> Request \<Rightarrow> gomap \<Rightarrow> Request" where
  "MultipartFormData E req formData =
     (case writeFields (getWriter E req) (multipartBuffer req) formData of
        (w, buf) \<Rightarrow> req\<lparr>writer := Some w, multipartBuffer := buf\<rparr>)"

definition UploadFromReader :: "env \<Rightarrow> Request \<Rightarrow> MultipartParam \<Rightarrow> error + Request" where
  "UploadFromReader E req param =
     (case CreateFormFile (getWriter E req) (multipartBuffer req) (FieldName param) (FileName param) of
        (w, buf) \<Rightarrow>
          (case FileBody param of
             Inl err \<Rightarrow> Inl err
           | Inr content \<Rightarrow>
               Inr (req\<lparr>writer := Some w, multipartBuffer := buf @ content,
                        contentType := FormDataContentType w,
                        formVals := MultipartBufferPtr\<rparr>)))"

definition Upload :: "env \<Rightarrow> Request \<Rightarrow> string \<Rightarrow> string \<Rightarrow> error + Request" where
  "Upload E req name file =
     (case os_Open E file of
        Inl err \<Rightarrow> Inl err
      | Inr f \<Rightarrow>
          UploadFromReader E req \<lparr>FieldName = name, FileName = file, FileBody = f\<rparr>)"

fun Uploads :: "env \<Rightarrow> Request \<Rightarrow> gomap \<Rightarrow> error + Request" where
  "Uploads E req [] = Inr req"
| "Uploads E req ((name, file) # files) =
     (case Upload E req name file of Inl err \<Rightarrow> Inl err | Inr req' \<Rightarrow> Uploads E req' files)"

fun UploadsFromReader :: "env \<Rightarrow> Request \<Rightarrow> MultipartParam list \<Rightarrow> error + Request" where
  "UploadsFromReader E req [] = Inr req"
| "UploadsFromReader E req (param # params) =
     (case UploadFromReader E req param of
        Inl err \<Rightarrow> Inl err
      | Inr req' \<Rightarrow> UploadsFromReader E req' params)"


definition OnAfterResponse :: "Request \<Rightarrow> AfterResponseHook \<Rightarrow> Request" where
  "OnAfterResponse req hook = req\<lparr>afterResponseHooks := afterResponseHooks req @ [hook]\<rparr>"

definition OnError :: "Request \<Rightarrow> ErrorHook \<Rightarrow> Request" where
  "OnError req errorHook = req\<lparr>errorHooks := errorHooks req @ [errorHook]\<rparr>"

text \<open>
  Each loop ranges over the hook list as it is when the loop starts and passes every hook
  the builder (or the response) as the hooks before it left it.  What a hook returns is
  dropped.
\<close>

fun rangeBeforeRequestHooks :: "env \<Rightarrow> BeforeRequestHook list \<Rightarrow> Request \<Rightarrow> Request \<times> event list" where
  "rangeBeforeRequestHooks E [] req = (req, [])"
| "rangeBeforeRequestHooks E (h # hs) req =
     (case rangeBeforeRequestHooks E hs (fst (runBeforeRequestHook E h req)) of
        (req', tr) \<Rightarrow> (req', CallBeforeRequestHook h req # tr))"

definition ExecuteBeforeRequestHooks :: "env \<Rightarrow> Request \<Rightarrow> Request \<times> event list" where
  "ExecuteBeforeRequestHooks E req = rangeBeforeRequestHooks E (beforeRequestHooks req) req"

fun rangeAfterResponseHooks :: "env \<Rightarrow> AfterResponseHook list \<Rightarrow> Response \<Rightarrow> Response \<times> event list" where
  "rangeAfterResponseHooks E [] response = (response, [])"
| "rangeAfterResponseHooks E (h # hs) response =
     (case rangeAfterResponseHooks E hs (fst (runAfterResponseHook E h response)) of
        (response', tr) \<Rightarrow> (response', CallAfterResponseHook h response # tr))"

text \<open>
  The parameter is a \<open>Response\<close>, not a pointer: the hooks work on the callee's copy,
  whose last state is the first component here and is dropped by the caller.
\<close>

definition ExecuteAfterResponseHooks :: "env \<Rightarrow> Request \<Rightarrow> Response \<Rightarrow> Response \<times> event list" where
  "ExecuteAfterResponseHooks E req response =
     rangeAfterResponseHooks E (afterResponseHooks req) response"

fun rangeErrorHooks :: "env \<Rightarrow> ErrorHook list \<Rightarrow> Request \<Rightarrow> error \<Rightarrow> Request \<times> event list" where
  "rangeErrorHooks E [] req err = (req, [])"
| "rangeErrorHooks E (h # hs) req err =
     (case rangeErrorHooks E hs (runErrorHook E h req err) err of
        (req', tr) \<Rightarrow> (req', CallErrorHook h req err # tr))"

definition ExecuteOnErrorHooks :: "env \<Rightarrow> Request \<Rightarrow> error \<Rightarrow> Request \<times> event list" where
  "ExecuteOnErrorHooks E req err = rangeErrorHooks E (errorHooks req) req err"

definition Context :: "Request \<Rightarrow> context_Context" where
  "Context r = (case ctx r of None \<Rightarrow> Background | Some c \<Rightarrow> c)"

definition SetContext :: "Request \<Rightarrow> context_Context \<Rightarrow> Request" where
  "SetContext r c = r\<lparr>ctx := Some c\<rparr>"

text \<open>
  The bytes a buffer pointer leads to.  Reading a buffer is not recorded: the body of a
  request is the content of the buffer when the request is built, and the builder a
  dispatch leaves behind still shows that content.
\<close>

definition bufferBytes :: "Request \<Rightarrow> BufferPtr \<Rightarrow> bytes" where
  "bufferBytes req p =
     (case p of NilBuffer \<Rightarrow> [] | NewBuffer b \<Rightarrow> b | MultipartBufferPtr \<Rightarrow> multipartBuffer req)"

text \<open>
  Two steps of \<open>makeRequest\<close>: closing the multipart writer when there is one, which
  writes the closing boundary into the multipart buffer, and the loop that sets the
  configured headers on the request in the order the map is enumerated.
\<close>

definition closeWriter :: "Request \<Rightarrow> Request" where
  "closeWriter req =
     (case writer req of
        None \<Rightarrow> req
      | Some w \<Rightarrow>
          (case Writer_Close w (multipartBuffer req) of
             (w', buf) \<Rightarrow> req\<lparr>writer := Some w', multipartBuffer := buf\<rparr>))"

definition setHeaders :: "http_Request \<Rightarrow> gomap \<Rightarrow> http_Request" where
  "setHeaders request hs =
     foldl (\<lambda>rq (key, val). rq\<lparr>Header := Header_Set (Header rq) key val\<rparr>) request hs"

text \<open>
  \<open>makeRequest\<close> returns what the Go function returns (\<open>Inl\<close>: a nil response and the
  error), the builder as the dispatch leaves it, and the trace of the dispatch.  The
  argument \<open>payloads0\<close> is the pointer the verb method read from \<open>formVals\<close> before the
  before-request hooks ran.
\<close>

definition makeRequest :: "env \<Rightarrow> Request \<Rightarrow> string \<Rightarrow> string \<Rightarrow> BufferPtr \<Rightarrow> outcome" where
  "makeRequest E req0 verb0 url0 payloads0 =
     (case ExecuteBeforeRequestHooks E req0 of (req1, tr1) \<Rightarrow>
      let response = \<lparr>resp = None\<rparr>;
          verb = ToUpper verb0
      in case createClient req1 of (cl, req2) \<Rightarrow>
      let req = closeWriter req2;
          url = (if queryVals req \<noteq> [] then url0 @ ''?'' @ queryVals req else url0);
          payloads = (if payloads0 = NilBuffer then NewBuffer [] else payloads0);
          body = (if verb = ''GET'' then None else Some (bufferBytes req payloads));
          tr2 = tr1 @ [CallNewRequest verb url body]
      in case http_NewRequest E verb url body of
           Inl err \<Rightarrow>
             (case ExecuteOnErrorHooks E req err of
                (req', tr3) \<Rightarrow> \<lparr>result = Inl err, builder = req', trace = tr2 @ tr3\<rparr>)
         | Inr request0 \<Rightarrow>
             let request1 = request0\<lparr>Header := Header_Set (Header request0) ''Content-Type''
                                                (contentType req)\<rparr>;
                 request2 = (if basicUser req \<noteq> [] \<and> basicPasswd req \<noteq> []
                             then SetBasicAuth request1 (basicUser req) (basicPasswd req)
                             else request1);
                 request3 = setHeaders request2 (headers req);
                 request = (case map_of (headers req) ''Host'' of
                              Some val \<Rightarrow> request3\<lparr>Host := val\<rparr>
                            | None \<Rightarrow> request3);
                 tr3 = tr2 @ [CallDo cl request]
             in case client_Do E cl request of
                  Inl err \<Rightarrow>
                    (case ExecuteOnErrorHooks E req err of
                       (req', tr4) \<Rightarrow> \<lparr>result = Inl err, builder = req', trace = tr3 @ tr4\<rparr>)
                | Inr r \<Rightarrow>
                    let response' = response\<lparr>resp := Some r\<rparr>
                    in case ExecuteAfterResponseHooks E req response' of
                         (copy, tr4) \<Rightarrow>
                           \<lparr>result = Inr response', builder = req, trace = tr3 @ tr4\<rparr>)"

definition Get :: "env \<Rightarrow> Request \<Rightarrow> string \<Rightarrow> outcome" where
  "Get E req url = makeRequest E req ''GET'' url (formVals req)"

definition Post :: "env \<Rightarrow> Request \<Rightarrow> string \<Rightarrow> outcome" where
  "Post E req url = makeRequest E req ''POST'' url (formVals req)"

definition Put :: "env \<Rightarrow> Request \<Rightarrow> string \<Rightarrow> outcome" where
  "Put E req url = makeRequest E req ''PUT'' url (formVals req)"

definition Patch :: "env \<Rightarrow> Request \<Rightarrow> string \<Rightarrow> outcome" where
  "Patch E req url = makeRequest E req ''PATCH'' url (formVals req)"

definition Delete :: "env \<Rightarrow> Request \<Rightarrow> string \<Rightarrow> outcome" where
  "Delete E req url = makeRequest E req ''DELETE'' url (formVals req)"

definition Head :: "env \<Rightarrow> Request \<Rightarrow> string \<Rightarrow> outcome" where
  "Head E req url = makeRequest E req ''HEAD'' url (formVals req)"

definition Options :: "env \<Rightarrow> Request \<Rightarrow> string \<Rightarrow> outcome" where
  "Options E req url = makeRequest E req ''OPTIONS'' url (formVals req)"

section \<open>Observations of a dispatch\<close>

text \<open>The calls of each kind in a trace, in order.\<close>

definition beforeHookCalls :: "event list \<Rightarrow> (BeforeRequestHook \<times> Request) list" where
  "beforeHookCalls tr =
     concat (map (\<lambda>e. case e of CallBeforeRequestHook h r \<Rightarrow> [(h, r)] | _ \<Rightarrow> []) tr)"

definition newRequestCalls :: "event list \<Rightarrow> (string \<times> string \<times> bytes option) list" where
  "newRequestCalls tr =
     concat (map (\<lambda>e. case e of CallNewRequest v u b \<Rightarrow> [(v, u, b)] | _ \<Rightarrow> []) tr)"

definition doCalls :: "event list \<Rightarrow> (Client \<times> http_Request) list" where
  "doCalls tr = concat (map (\<lambda>e. case e of CallDo c rq \<Rightarrow> [(c, rq)] | _ \<Rightarrow> []) tr)"

definition sentRequests :: "event list \<Rightarrow> http_Request list" where
  "sentRequests tr = map snd (doCalls tr)"

definition errorHookCalls :: "event list \<Rightarrow> (ErrorHook \<times> Request \<times> error) list" where
  "errorHookCalls tr =
     concat (map (\<lambda>e. case e of CallErrorHook h r err \<Rightarrow> [(h, r, err)] | _ \<Rightarrow> []) tr)"

definition afterHookCalls :: "event list \<Rightarrow> (AfterResponseHook \<times> Response) list" where
  "afterHookCalls tr =
     concat (map (\<lambda>e. case e of CallAfterResponseHook h r \<Rightarrow> [(h, r)] | _ \<Rightarrow> []) tr)"

text \<open>
  The builder each hook of a list is handed when the list is run from a builder: the
  first hook gets the builder itself, every later one the builder as the hooks before it
  left it.  The same for the response copies of the after-response hooks.
\<close>

fun passedBuilders :: "env \<Rightarrow> BeforeRequestHook list \<Rightarrow> Request \<Rightarrow> Request list" where
  "passedBuilders E [] req = []"
| "passedBuilders E (h # hs) req = req # passedBuilders E hs (fst (runBeforeRequestHook E h req))"

fun passedToErrorHooks :: "env \<Rightarrow> ErrorHook list \<Rightarrow> Request \<Rightarrow> error \<Rightarrow> Request list" where
  "passedToErrorHooks E [] req err = []"
| "passedToErrorHooks E (h # hs) req err =
     req # passedToErrorHooks E hs (runErrorHook E h req err) err"

fun passedCopies :: "env \<Rightarrow> AfterResponseHook list \<Rightarrow> Response \<Rightarrow> Response list" where
  "passedCopies E [] response = []"
| "passedCopies E (h # hs) response =
     response # passedCopies E hs (fst (runAfterResponseHook E h response))"

text \<open>
  The state of a dispatch when \<open>makeRequest\<close> builds the outgoing request: the builder
  after the before-request hooks, \<open>createClient\<close> and the closing of the multipart
  writer; the client; the URL, the body and the request handed to the platform.
\<close>

definition atDispatch :: "env \<Rightarrow> Request \<Rightarrow> Request" where
  "atDispatch E req = closeWriter (snd (createClient (fst (ExecuteBeforeRequestHooks E req))))"

definition dispatchClient :: "env \<Rightarrow> Request \<Rightarrow> Client" where
  "dispatchClient E req = fst (createClient (fst (ExecuteBeforeRequestHooks E req)))"

definition dispatchURL :: "env \<Rightarrow> Request \<Rightarrow> string \<Rightarrow> string" where
  "dispatchURL E req url =
     (if queryVals (atDispatch E req) \<noteq> [] then url @ ''?'' @ queryVals (atDispatch E req)
      else url)"

definition dispatchBody :: "env \<Rightarrow> Request \<Rightarrow> string \<Rightarrow> BufferPtr \<Rightarrow> bytes option" where
  "dispatchBody E req verb p =
     (if ToUpper verb = ''GET'' then None
      else Some (bufferBytes (atDispatch E req) (if p = NilBuffer then NewBuffer [] else p)))"

definition configure :: "Request \<Rightarrow> http_Request \<Rightarrow> http_Request" where
  "configure req request0 =
     (let request1 = request0\<lparr>Header := Header_Set (Header request0) ''Content-Type''
                                        (contentType req)\<rparr>;
          request2 = (if basicUser req \<noteq> [] \<and> basicPasswd req \<noteq> []
                      then SetBasicAuth request1 (basicUser req) (basicPasswd req)
                      else request1);
          request3 = setHeaders request2 (headers req)
      in case map_of (headers req) ''Host'' of
           Some val \<Rightarrow> request3\<lparr>Host := val\<rparr>
         | None \<Rightarrow> request3)"

text \<open>The hook calls of a dispatch, as events.\<close>

definition beforeTrace :: "env \<Rightarrow> Request \<Rightarrow> event list" where
  "beforeTrace E req =
     map (\<lambda>(h, r). CallBeforeRequestHook h r)
       (zip (beforeRequestHooks req) (passedBuilders E (beforeRequestHooks req) req))"

definition errorTrace :: "env \<Rightarrow> Request \<Rightarrow> error \<Rightarrow> event list" where
  "errorTrace E req err =
     map (\<lambda>(h, r). CallErrorHook h r err)
       (zip (errorHooks req) (passedToErrorHooks E (errorHooks req) req err))"

definition afterTrace :: "env \<Rightarrow> Request \<Rightarrow> Response \<Rightarrow> event list" where
  "afterTrace E req response =
     map (\<lambda>(h, r). CallAfterResponseHook h r)
       (zip (afterResponseHooks req) (passedCopies E (afterResponseHooks req) response))"

text \<open>The verb methods.\<close>

definition otherVerbs :: "(env \<Rightarrow> Request \<Rightarrow> string \<Rightarrow> outcome) list" where
  "otherVerbs = [Post, Put, Patch, Delete, Head, Options]"

definition allVerbs :: "(env \<Rightarrow> Request \<Rightarrow> string \<Rightarrow> outcome) list" where
  "allVerbs = Get # otherVerbs"

text \<open>
  In the words of the specification: the configured payload buffer, an empty buffer
  when none was set.
\<close>

definition configuredPayload :: "env \<Rightarrow> Request \<Rightarrow> bytes" where
  "configuredPayload E req =
     (case formVals req of
        NilBuffer \<Rightarrow> []
      | NewBuffer b \<Rightarrow> b
      | MultipartBufferPtr \<Rightarrow> multipartBuffer (atDispatch E req))"

text \<open>
  In the words of the specification: keys and values percent-escaped.  In the form
  encoding of URLs a letter, a digit and each of \<open>- _ . ~\<close> stands for itself, a space is
  written \<open>+\<close>, and any other byte \<open>%\<close> followed by its value as two upper-case
  hexadecimal digits.  \<open>percentDecode\<close> reads such a text back, and \<open>urlSafe\<close> are the
  bytes it is made of.
\<close>

definition unreservedBytes :: string where
  "unreservedBytes = ''ABCDEFGHIJKLMNOPQRSTUVWXYZabcdefghijklmnopqrstuvwxyz0123456789-_.~''"

definition hexDigits :: string where
  "hexDigits = ''0123456789ABCDEF''"

definition percentEscapeByte :: "char \<Rightarrow> string" where
  "percentEscapeByte c =
     (if c \<in> set unreservedBytes then [c]
      else if c = CHR '' '' then ''+''
      else [CHR ''%'', hexDigits ! ((of_char c :: nat) div 16),
            hexDigits ! ((of_char c :: nat) mod 16)])"

definition percentEscape :: "string \<Rightarrow> string" where
  "percentEscape s = concat (map percentEscapeByte s)"

definition hexValue :: "char \<Rightarrow> nat option" where
  "hexValue =
     map_of (zip ''0123456789ABCDEF'' [0, 1, 2, 3, 4, 5, 6, 7, 8, 9, 10, 11, 12, 13, 14, 15])"

fun percentDecode :: "string \<Rightarrow> string option" where
  "percentDecode [] = Some []"
| "percentDecode (c # cs) =
     (if c = CHR ''%'' then
        (case cs of
           h1 # h2 # rest \<Rightarrow>
             (case (hexValue h1, hexValue h2) of
                (Some a, Some b) \<Rightarrow> map_option (Cons (char_of (16 * a + b))) (percentDecode rest)
              | _ \<Rightarrow> None)
         | _ \<Rightarrow> None)
      else if c = CHR ''+'' then map_option (Cons CHR '' '') (percentDecode cs)
      else map_option (Cons c) (percentDecode cs))"

definition urlSafe :: "char \<Rightarrow> bool" where
  "urlSafe c = (c \<in> set unreservedBytes \<or> c = CHR ''%'' \<or> c = CHR ''+'')"

text \<open>
  In the words of the specification: the standard form encoding of a map, its keys and
  values percent-escaped, the pairs sorted by key and joined by \<open>&\<close>.
\<close>

fun joinWith :: "string \<Rightarrow> string list \<Rightarrow> string" where
  "joinWith sep [] = []"
| "joinWith sep [x] = x"
| "joinWith sep (x # y # ys) = x @ sep @ joinWith sep (y # ys)"

definition formEncoding :: "gomap \<Rightarrow> string" where
  "formEncoding Q =
     joinWith ''&'' (map (\<lambda>(k, v). percentEscape k @ ''='' @ percentEscape v) (sort_key fst Q))"

text \<open>The bytes \<open>MultipartFormData\<close> appends for a map, from a writer's state.\<close>

definition fieldParts :: "Writer \<Rightarrow> gomap \<Rightarrow> bytes" where
  "fieldParts w formData = snd (writeFields w [] formData)"

text \<open>
  The bytes of a text up to its first double quote that is not the second byte of a
  pair starting with a backslash: in a \<open>Content-Disposition\<close> line, the escaped name.
\<close>

fun quotedPrefix :: "string \<Rightarrow> string" where
  "quotedPrefix [] = []"
| "quotedPrefix [c] = (if c = CHR 0x22 then [] else [c])"
| "quotedPrefix (c # d # cs) =
     (if c = CHR 0x22 then []
      else if c = CHR 0x5C then c # d # quotedPrefix cs
      else c # quotedPrefix (d # cs))"

subsection \<open>An environment for the examples\<close>

text \<open>
  URLs are \<open>http://host/path\<close> and one with a space does not parse.  The exchange is
  cancelled when the request carries a context that is done, refused by the host
  \<open>down.example\<close>, and answered with status 200 otherwise.  Before-request hook 11
  returns an error, hook 12 calls \<open>BasicAuth\<close>; after-response hook 21 clears the
  \<open>resp\<close> field of the wrapper it is given.
\<close>

definition demoParse :: "string \<Rightarrow> error + string" where
  "demoParse u =
     (if CHR '' '' \<in> set u then Inl (Error ''invalid character in URL'')
      else Inr (takeWhile (\<lambda>c. c \<noteq> CHR ''/'' \<and> c \<noteq> CHR ''?'') (drop 7 u)))"

definition demoDo :: "Client \<Rightarrow> http_Request \<Rightarrow> error + http_Response" where
  "demoDo c rq =
     (if Ctx rq = WithCancel True then Inl (Error ''context canceled'')
      else if Host rq = ''down.example'' then Inl (Error ''connection refused'')
      else Inr \<lparr>StatusCode = 200, RespBody = ''ok''\<rparr>)"

definition demoMarshal :: "(string \<times> jvalue) list \<Rightarrow> error + bytes" where
  "demoMarshal m =
     (if m = [(''x'', JNumber 1)]
      then Inr ([CHR ''{'', CHR 0x22, CHR ''x'', CHR 0x22, CHR '':'', CHR ''1'', CHR ''}''])
      else Inl (Error ''json: unsupported value''))"

definition demoOpen :: "string \<Rightarrow> error + (error + bytes)" where
  "demoOpen file =
     (if file = ''a.txt'' then Inr (Inr ''AAA'')
      else if file = ''b.txt'' then Inr (Inr ''BBB'')
      else Inl (Error ''no such file''))"

definition demoBefore :: "BeforeRequestHook \<Rightarrow> Request \<Rightarrow> Request \<times> error option" where
  "demoBefore h r =
     (if h = 11 then (r, Some (Error ''hook failed''))
      else if h = 12 then (BasicAuth r ''u'' ''p'', None)
      else (r, None))"

definition demoAfter :: "AfterResponseHook \<Rightarrow> Response \<Rightarrow> Response \<times> error option" where
  "demoAfter h r = (if h = 21 then (r\<lparr>resp := None\<rparr>, None) else (r, None))"

definition demoEnv :: env where
  "demoEnv =
     \<lparr>url_Parse = demoParse, client_Do = demoDo, json_Marshal = demoMarshal,
      randomBoundary = ''BOUNDARY'', os_Open = demoOpen, runBeforeRequestHook = demoBefore,
      runAfterResponseHook = demoAfter, runErrorHook = (\<lambda>h r err. r)\<rparr>"

section \<open>Properties\<close>

subsection \<open>The traces of the hook loops\<close>

lemma rangeBeforeRequestHooks_trace:
  "snd (rangeBeforeRequestHooks E hs req) =
     map (\<lambda>(h, r). CallBeforeRequestHook h r) (zip hs (passedBuilders E hs req))"
  by (induction hs arbitrary: req) (simp_all add: case_prod_unfold)

lemma rangeErrorHooks_trace:
  "snd (rangeErrorHooks E hs req err) =
     map (\<lambda>(h, r). CallErrorHook h r err) (zip hs (passedToErrorHooks E hs req err))"
  by (induction hs arbitrary: req) (simp_all add: case_prod_unfold)

lemma rangeAfterResponseHooks_trace:
  "snd (rangeAfterResponseHooks E hs response) =
     map (\<lambda>(h, r). CallAfterResponseHook h r) (zip hs (passedCopies E hs response))"
  by (induction hs arbitrary: response) (simp_all add: case_prod_unfold)

lemma length_passedBuilders [simp]: "length (passedBuilders E hs req) = length hs"
  by (induction hs arbitrary: req) simp_all

lemma length_passedToErrorHooks [simp]: "length (passedToErrorHooks E hs req err) = length hs"
  by (induction hs arbitrary: req) simp_all

lemma length_passedCopies [simp]: "length (passedCopies E hs response) = length hs"
  by (induction hs arbitrary: response) simp_all

lemma calls_of_before_events:
  "beforeHookCalls (map (\<lambda>(h, r). CallBeforeRequestHook h r) xs) = xs"
  "newRequestCalls (map (\<lambda>(h, r). CallBeforeRequestHook h r) xs) = []"
  "doCalls (map (\<lambda>(h, r). CallBeforeRequestHook h r) xs) = []"
  "errorHookCalls (map (\<lambda>(h, r). CallBeforeRequestHook h r) xs) = []"
  "afterHookCalls (map (\<lambda>(h, r). CallBeforeRequestHook h r) xs) = []"
  by (induction xs; simp add: beforeHookCalls_def newRequestCalls_def doCalls_def
      errorHookCalls_def afterHookCalls_def case_prod_unfold)+

lemma calls_of_error_events:
  "beforeHookCalls (map (\<lambda>(h, r). CallErrorHook h r err) xs) = []"
  "newRequestCalls (map (\<lambda>(h, r). CallErrorHook h r err) xs) = []"
  "doCalls (map (\<lambda>(h, r). CallErrorHook h r err) xs) = []"
  "errorHookCalls (map (\<lambda>(h, r). CallErrorHook h r err) xs) = map (\<lambda>(h, r). (h, r, err)) xs"
  "afterHookCalls (map (\<lambda>(h, r). CallErrorHook h r err) xs) = []"
  by (induction xs; simp add: beforeHookCalls_def newRequestCalls_def doCalls_def
      errorHookCalls_def afterHookCalls_def case_prod_unfold)+

lemma calls_of_after_events:
  "beforeHookCalls (map (\<lambda>(h, r). CallAfterResponseHook h r) xs) = []"
  "newRequestCalls (map (\<lambda>(h, r). CallAfterResponseHook h r) xs) = []"
  "doCalls (map (\<lambda>(h, r). CallAfterResponseHook h r) xs) = []"
  "errorHookCalls (map (\<lambda>(h, r). CallAfterResponseHook h r) xs) = []"
  "afterHookCalls (map (\<lambda>(h, r). CallAfterResponseHook h r) xs) = xs"
  by (induction xs; simp add: beforeHookCalls_def newRequestCalls_def doCalls_def
      errorHookCalls_def afterHookCalls_def case_prod_unfold)+

lemma calls_append:
  "beforeHookCalls (xs @ ys) = beforeHookCalls xs @ beforeHookCalls ys"
  "newRequestCalls (xs @ ys) = newRequestCalls xs @ newRequestCalls ys"
  "doCalls (xs @ ys) = doCalls xs @ doCalls ys"
  "errorHookCalls (xs @ ys) = errorHookCalls xs @ errorHookCalls ys"
  "afterHookCalls (xs @ ys) = afterHookCalls xs @ afterHookCalls ys"
  by (simp_all add: beforeHookCalls_def newRequestCalls_def doCalls_def
      errorHookCalls_def afterHookCalls_def)

lemma calls_Cons:
  "beforeHookCalls (CallNewRequest v u b # tr) = beforeHookCalls tr"
  "beforeHookCalls (CallDo c rq # tr) = beforeHookCalls tr"
  "newRequestCalls (CallNewRequest v u b # tr) = (v, u, b) # newRequestCalls tr"
  "newRequestCalls (CallDo c rq # tr) = newRequestCalls tr"
  "doCalls (CallNewRequest v u b # tr) = doCalls tr"
  "doCalls (CallDo c rq # tr) = (c, rq) # doCalls tr"
  "errorHookCalls (CallNewRequest v u b # tr) = errorHookCalls tr"
  "errorHookCalls (CallDo c rq # tr) = errorHookCalls tr"
  "afterHookCalls (CallNewRequest v u b # tr) = afterHookCalls tr"
  "afterHookCalls (CallDo c rq # tr) = afterHookCalls tr"
  by (simp_all add: beforeHookCalls_def newRequestCalls_def doCalls_def
      errorHookCalls_def afterHookCalls_def)

lemma calls_Nil:
  "beforeHookCalls [] = []" "newRequestCalls [] = []" "doCalls [] = []"
  "errorHookCalls [] = []" "afterHookCalls [] = []"
  by (simp_all add: beforeHookCalls_def newRequestCalls_def doCalls_def
      errorHookCalls_def afterHookCalls_def)

subsection \<open>The three ways a dispatch ends\<close>

lemma makeRequest_construction_fails:
  assumes "http_NewRequest E (ToUpper verb) (dispatchURL E req url) (dispatchBody E req verb p) = Inl err"
  shows "makeRequest E req verb url p =
     \<lparr>result = Inl err, builder = fst (ExecuteOnErrorHooks E (atDispatch E req) err),
      trace = beforeTrace E req
          @ [CallNewRequest (ToUpper verb) (dispatchURL E req url) (dispatchBody E req verb p)]
          @ errorTrace E (atDispatch E req) err\<rparr>"
proof -
  obtain req1 tr1 where b: "ExecuteBeforeRequestHooks E req = (req1, tr1)" by force
  obtain cl req2 where c: "createClient req1 = (cl, req2)" by force
  have d: "atDispatch E req = closeWriter req2" by (simp add: atDispatch_def b c)
  obtain req' tr3 where e: "ExecuteOnErrorHooks E (closeWriter req2) err = (req', tr3)" by force
  have t1: "tr1 = beforeTrace E req"
    using b rangeBeforeRequestHooks_trace[of E "beforeRequestHooks req" req]
    by (simp add: ExecuteBeforeRequestHooks_def beforeTrace_def)
  have t3: "tr3 = errorTrace E (closeWriter req2) err"
    using e rangeErrorHooks_trace[of E "errorHooks (closeWriter req2)" "closeWriter req2" err]
    by (simp add: ExecuteOnErrorHooks_def errorTrace_def)
  show ?thesis
    using assms unfolding d dispatchURL_def dispatchBody_def t1[symmetric] t3[symmetric]
    by (simp add: makeRequest_def b c e Let_def)
qed

lemma makeRequest_exchange_fails:
  assumes "http_NewRequest E (ToUpper verb) (dispatchURL E req url) (dispatchBody E req verb p) = Inr request0"
    and "client_Do E (dispatchClient E req) (configure (atDispatch E req) request0) = Inl err"
  shows "makeRequest E req verb url p =
     \<lparr>result = Inl err, builder = fst (ExecuteOnErrorHooks E (atDispatch E req) err),
      trace = beforeTrace E req
          @ [CallNewRequest (ToUpper verb) (dispatchURL E req url) (dispatchBody E req verb p),
             CallDo (dispatchClient E req) (configure (atDispatch E req) request0)]
          @ errorTrace E (atDispatch E req) err\<rparr>"
proof -
  obtain req1 tr1 where b: "ExecuteBeforeRequestHooks E req = (req1, tr1)" by force
  obtain cl req2 where c: "createClient req1 = (cl, req2)" by force
  have d: "atDispatch E req = closeWriter req2" by (simp add: atDispatch_def b c)
  have d': "dispatchClient E req = cl" by (simp add: dispatchClient_def b c)
  obtain req' tr3 where e: "ExecuteOnErrorHooks E (closeWriter req2) err = (req', tr3)" by force
  have t1: "tr1 = beforeTrace E req"
    using b rangeBeforeRequestHooks_trace[of E "beforeRequestHooks req" req]
    by (simp add: ExecuteBeforeRequestHooks_def beforeTrace_def)
  have t3: "tr3 = errorTrace E (closeWriter req2) err"
    using e rangeErrorHooks_trace[of E "errorHooks (closeWriter req2)" "closeWriter req2" err]
    by (simp add: ExecuteOnErrorHooks_def errorTrace_def)
  show ?thesis
    using assms unfolding d d' dispatchURL_def dispatchBody_def t1[symmetric] t3[symmetric]
    by (simp add: makeRequest_def b c e Let_def configure_def)
qed

lemma makeRequest_succeeds:
  assumes "http_NewRequest E (ToUpper verb) (dispatchURL E req url) (dispatchBody E req verb p) = Inr request0"
    and "client_Do E (dispatchClient E req) (configure (atDispatch E req) request0) = Inr r"
  shows "makeRequest E req verb url p =
     \<lparr>result = Inr \<lparr>resp = Some r\<rparr>, builder = atDispatch E req,
      trace = beforeTrace E req
          @ [CallNewRequest (ToUpper verb) (dispatchURL E req url) (dispatchBody E req verb p),
             CallDo (dispatchClient E req) (configure (atDispatch E req) request0)]
          @ afterTrace E (atDispatch E req) \<lparr>resp = Some r\<rparr>\<rparr>"
proof -
  obtain req1 tr1 where b: "ExecuteBeforeRequestHooks E req = (req1, tr1)" by force
  obtain cl req2 where c: "createClient req1 = (cl, req2)" by force
  have d: "atDispatch E req = closeWriter req2" by (simp add: atDispatch_def b c)
  have d': "dispatchClient E req = cl" by (simp add: dispatchClient_def b c)
  obtain copy tr3 where e: "ExecuteAfterResponseHooks E (closeWriter req2) \<lparr>resp = Some r\<rparr> = (copy, tr3)" by force
  have t1: "tr1 = beforeTrace E req"
    using b rangeBeforeRequestHooks_trace[of E "beforeRequestHooks req" req]
    by (simp add: ExecuteBeforeRequestHooks_def beforeTrace_def)
  have t3: "tr3 = afterTrace E (closeWriter req2) \<lparr>resp = Some r\<rparr>"
    using e rangeAfterResponseHooks_trace[of E "afterResponseHooks (closeWriter req2)" "\<lparr>resp = Some r\<rparr>"]
    by (simp add: ExecuteAfterResponseHooks_def afterTrace_def)
  show ?thesis
    using assms unfolding d d' dispatchURL_def dispatchBody_def t1[symmetric] t3[symmetric]
    by (simp add: makeRequest_def b c e Let_def configure_def)
qed

subsection \<open>What a dispatch hands to the platform\<close>

lemma makeRequest_newRequestCalls:
  "newRequestCalls (trace (makeRequest E req verb url p)) =
     [(ToUpper verb, dispatchURL E req url, dispatchBody E req verb p)]"
proof (cases "http_NewRequest E (ToUpper verb) (dispatchURL E req url) (dispatchBody E req verb p)")
  case (Inl err)
  then show ?thesis
    by (simp add: makeRequest_construction_fails beforeTrace_def errorTrace_def calls_append
        calls_Cons calls_Nil calls_of_before_events calls_of_error_events)
next
  case (Inr request0)
  show ?thesis
  proof (cases "client_Do E (dispatchClient E req) (configure (atDispatch E req) request0)")
    case (Inl err)
    with Inr show ?thesis
      by (simp add: makeRequest_exchange_fails beforeTrace_def errorTrace_def calls_append
          calls_Cons calls_Nil calls_of_before_events calls_of_error_events)
  next
    case (Inr r)
    with \<open>http_NewRequest E (ToUpper verb) (dispatchURL E req url) (dispatchBody E req verb p) = Inr request0\<close>
    show ?thesis
      by (simp add: makeRequest_succeeds beforeTrace_def afterTrace_def calls_append
          calls_Cons calls_Nil calls_of_before_events calls_of_after_events)
  qed
qed

lemma makeRequest_doCalls:
  "doCalls (trace (makeRequest E req verb url p)) =
     (case http_NewRequest E (ToUpper verb) (dispatchURL E req url) (dispatchBody E req verb p) of
        Inl err \<Rightarrow> []
      | Inr request0 \<Rightarrow> [(dispatchClient E req, configure (atDispatch E req) request0)])"
proof (cases "http_NewRequest E (ToUpper verb) (dispatchURL E req url) (dispatchBody E req verb p)")
  case (Inl err)
  then show ?thesis
    by (simp add: makeRequest_construction_fails beforeTrace_def errorTrace_def calls_append
        calls_Cons calls_Nil calls_of_before_events calls_of_error_events)
next
  case (Inr request0)
  show ?thesis
  proof (cases "client_Do E (dispatchClient E req) (configure (atDispatch E req) request0)")
    case (Inl err)
    with Inr show ?thesis
      by (simp add: makeRequest_exchange_fails beforeTrace_def errorTrace_def calls_append
          calls_Cons calls_Nil calls_of_before_events calls_of_error_events)
  next
    case (Inr r)
    with \<open>http_NewRequest E (ToUpper verb) (dispatchURL E req url) (dispatchBody E req verb p) = Inr request0\<close>
    show ?thesis
      by (simp add: makeRequest_succeeds beforeTrace_def afterTrace_def calls_append
          calls_Cons calls_Nil calls_of_before_events calls_of_after_events)
  qed
qed

lemma setHeaders_fields:
  "ReqBody (setHeaders rq hs) = ReqBody rq" "Ctx (setHeaders rq hs) = Ctx rq"
  "URL (setHeaders rq hs) = URL rq" "Method (setHeaders rq hs) = Method rq"
  "Host (setHeaders rq hs) = Host rq"
  by (induction hs arbitrary: rq; simp add: setHeaders_def case_prod_unfold)+

lemma configure_fields:
  "ReqBody (configure req rq) = ReqBody rq" "Ctx (configure req rq) = Ctx rq"
  "URL (configure req rq) = URL rq" "Method (configure req rq) = Method rq"
  by (simp_all add: configure_def Let_def setHeaders_fields SetBasicAuth_def split: option.splits)

lemma http_NewRequest_fields:
  assumes "http_NewRequest E v u b = Inr rq"
  shows "ReqBody rq = b" "Ctx rq = Background" "URL rq = u" "Header rq = Map.empty"
  using assms by (auto simp: http_NewRequest_def Let_def split: if_splits sum.splits)

lemma sentRequests_fields:
  assumes "rq \<in> set (sentRequests (trace (makeRequest E req verb url p)))"
  shows "ReqBody rq = dispatchBody E req verb p" "Ctx rq = Background"
    "URL rq = dispatchURL E req url"
proof -
  from assms obtain request0
    where n: "http_NewRequest E (ToUpper verb) (dispatchURL E req url) (dispatchBody E req verb p)
                = Inr request0"
      and rq: "rq = configure (atDispatch E req) request0"
    by (cases "http_NewRequest E (ToUpper verb) (dispatchURL E req url) (dispatchBody E req verb p)")
      (auto simp: sentRequests_def makeRequest_doCalls)
  show "ReqBody rq = dispatchBody E req verb p" "Ctx rq = Background"
    "URL rq = dispatchURL E req url"
    using http_NewRequest_fields[OF n] by (simp_all add: rq configure_fields)
qed

lemma ToUpper_verbs:
  "ToUpper ''GET'' = ''GET''" "ToUpper ''POST'' = ''POST''" "ToUpper ''PUT'' = ''PUT''"
  "ToUpper ''PATCH'' = ''PATCH''" "ToUpper ''DELETE'' = ''DELETE''" "ToUpper ''HEAD'' = ''HEAD''"
  "ToUpper ''OPTIONS'' = ''OPTIONS''"
  by (simp_all add: ToUpper_def toUpperByte_def)

lemma dispatchBody_GET: "dispatchBody E req ''GET'' p = None"
  by (simp add: dispatchBody_def ToUpper_verbs)

lemma dispatchBody_other:
  assumes "verb \<in> {''POST'', ''PUT'', ''PATCH'', ''DELETE'', ''HEAD'', ''OPTIONS''}"
  shows "dispatchBody E req verb (formVals req) = Some (configuredPayload E req)"
  using assms
  by (auto simp: dispatchBody_def ToUpper_verbs configuredPayload_def bufferBytes_def
      split: BufferPtr.splits)

lemma otherVerbs_cases:
  assumes "f \<in> set otherVerbs"
  shows "\<exists>verb \<in> {''POST'', ''PUT'', ''PATCH'', ''DELETE'', ''HEAD'', ''OPTIONS''}.
           f = (\<lambda>E req url. makeRequest E req verb url (formVals req))"
proof -
  from assms consider "f = Post" | "f = Put" | "f = Patch" | "f = Delete" | "f = Head" | "f = Options"
    by (auto simp: otherVerbs_def)
  then show ?thesis
    by cases (simp_all add: fun_eq_iff Post_def Put_def Patch_def Delete_def Head_def Options_def)
qed

text \<open>
  C2.  \<open>Get\<close> hands the platform a nil body whatever payload is configured, and the
  request it sends has none; every other verb method hands over the configured payload
  buffer, an empty buffer when none was set, and the request it sends carries it.
\<close>

theorem get_drops_body_other_verbs_send_payload:
  "map (snd \<circ> snd) (newRequestCalls (trace (Get E req url))) = [None] \<and>
   list_all (\<lambda>rq. ReqBody rq = None) (sentRequests (trace (Get E req url))) \<and>
   (verb \<in> set otherVerbs \<longrightarrow>
      map (snd \<circ> snd) (newRequestCalls (trace (verb E req url))) = [Some (configuredPayload E req)] \<and>
      list_all (\<lambda>rq. ReqBody rq = Some (configuredPayload E req))
        (sentRequests (trace (verb E req url))))"
proof (intro conjI impI)
  show "map (snd \<circ> snd) (newRequestCalls (trace (Get E req url))) = [None]"
    by (simp add: Get_def makeRequest_newRequestCalls dispatchBody_GET)
  show "list_all (\<lambda>rq. ReqBody rq = None) (sentRequests (trace (Get E req url)))"
    unfolding list_all_iff Get_def
    using sentRequests_fields(1)[of _ E req "''GET''" url "formVals req"]
    by (simp add: dispatchBody_GET)
next
  assume "verb \<in> set otherVerbs"
  then obtain v where v: "v \<in> {''POST'', ''PUT'', ''PATCH'', ''DELETE'', ''HEAD'', ''OPTIONS''}"
    and f: "verb = (\<lambda>E req url. makeRequest E req v url (formVals req))"
    using otherVerbs_cases by blast
  show "map (snd \<circ> snd) (newRequestCalls (trace (verb E req url))) = [Some (configuredPayload E req)]"
    by (simp add: f makeRequest_newRequestCalls dispatchBody_other[OF v])
  show "list_all (\<lambda>rq. ReqBody rq = Some (configuredPayload E req))
        (sentRequests (trace (verb E req url)))"
    unfolding list_all_iff f
    using sentRequests_fields(1)[of _ E req v url "formVals req"]
    by (simp add: dispatchBody_other[OF v])
qed

theorem get_drops_body_other_verbs_send_payload_witness:
  "map (snd \<circ> snd) (newRequestCalls (trace
      (Get demoEnv (Text (NewRequest []) ''hello'') ''http://example.com/''))) = [None] \<and>
   map (snd \<circ> snd) (newRequestCalls (trace
      (Post demoEnv (Text (NewRequest []) ''hello'') ''http://example.com/''))) = [Some ''hello''] \<and>
   map (snd \<circ> snd) (newRequestCalls (trace
      (Put demoEnv (NewRequest []) ''http://example.com/''))) = [Some []]"
proof -
  have h: "Post \<in> set otherVerbs" "Put \<in> set otherVerbs"
    by (simp_all add: otherVerbs_def)
  have p: "configuredPayload demoEnv (Text (NewRequest []) ''hello'') = ''hello''"
    "configuredPayload demoEnv (NewRequest []) = []"
    by (simp_all add: configuredPayload_def Text_def NewRequest_def zeroRequest_def)
  show ?thesis
    using get_drops_body_other_verbs_send_payload
            [of demoEnv "Text (NewRequest []) ''hello''" "''http://example.com/''" Post]
          get_drops_body_other_verbs_send_payload
            [of demoEnv "NewRequest []" "''http://example.com/''" Put] h p
    by simp
qed

subsection \<open>Environments that differ in what the hooks do\<close>

lemma rangeBeforeRequestHooks_cong:
  assumes "\<And>h r. fst (runBeforeRequestHook E' h r) = fst (runBeforeRequestHook E h r)"
  shows "rangeBeforeRequestHooks E' hs req = rangeBeforeRequestHooks E hs req"
  by (induction hs arbitrary: req) (simp_all add: assms)




subsection \<open>The context of the request sent\<close>

lemma dispatch_context_is_background:
  "list_all (\<lambda>rq. Ctx rq = Background) (sentRequests (trace (makeRequest E req verb url p)))"
  by (simp add: list_all_iff sentRequests_fields(2))

lemma allVerbs_makeRequest:
  assumes "f \<in> set allVerbs"
  shows "\<exists>verb. f = (\<lambda>E req url. makeRequest E req verb url (formVals req))"
proof -
  from assms consider "f = Get" | "f = Post" | "f = Put" | "f = Patch" | "f = Delete"
    | "f = Head" | "f = Options"
    by (auto simp: allVerbs_def otherVerbs_def)
  then show ?thesis
  proof cases
    case 1
    then have "f = (\<lambda>E req url. makeRequest E req ''GET'' url (formVals req))"
      by (simp add: fun_eq_iff Get_def)
    then show ?thesis by (rule exI)
  next
    case 2
    then have "f = (\<lambda>E req url. makeRequest E req ''POST'' url (formVals req))"
      by (simp add: fun_eq_iff Post_def)
    then show ?thesis by (rule exI)
  next
    case 3
    then have "f = (\<lambda>E req url. makeRequest E req ''PUT'' url (formVals req))"
      by (simp add: fun_eq_iff Put_def)
    then show ?thesis by (rule exI)
  next
    case 4
    then have "f = (\<lambda>E req url. makeRequest E req ''PATCH'' url (formVals req))"
      by (simp add: fun_eq_iff Patch_def)
    then show ?thesis by (rule exI)
  next
    case 5
    then have "f = (\<lambda>E req url. makeRequest E req ''DELETE'' url (formVals req))"
      by (simp add: fun_eq_iff Delete_def)
    then show ?thesis by (rule exI)
  next
    case 6
    then have "f = (\<lambda>E req url. makeRequest E req ''HEAD'' url (formVals req))"
      by (simp add: fun_eq_iff Head_def)
    then show ?thesis by (rule exI)
  next
    case 7
    then have "f = (\<lambda>E req url. makeRequest E req ''OPTIONS'' url (formVals req))"
      by (simp add: fun_eq_iff Options_def)
    then show ?thesis by (rule exI)
  qed
qed

text \<open>
  C1.  Whatever context \<open>SetContext\<close> attached to the builder, the request a verb method
  sends carries the background context: \<open>makeRequest\<close> builds it with \<open>http.NewRequest\<close>
  and never reads the \<open>ctx\<close> field, so a context that is done does not cancel the
  exchange.
\<close>

theorem SetContext_never_reaches_the_request:
  "Context (SetContext req c) = c \<and>
   (verb \<in> set allVerbs \<longrightarrow>
      list_all (\<lambda>rq. Ctx rq = Background) (sentRequests (trace (verb E (SetContext req c) url))))"
proof (intro conjI impI)
  show "Context (SetContext req c) = c"
    by (simp add: Context_def SetContext_def)
next
  assume "verb \<in> set allVerbs"
  from allVerbs_makeRequest[OF this] obtain v
    where "verb = (\<lambda>E req url. makeRequest E req v url (formVals req))" by (rule exE)
  then show "list_all (\<lambda>rq. Ctx rq = Background)
               (sentRequests (trace (verb E (SetContext req c) url)))"
    by (simp add: dispatch_context_is_background)
qed

theorem SetContext_never_reaches_the_request_witness:
  "Context (SetContext (NewRequest []) (WithCancel True)) = WithCancel True \<and>
   map Ctx (sentRequests (trace
      (Get demoEnv (SetContext (NewRequest []) (WithCancel True)) ''http://example.com/''))) =
     [Background] \<and>
   result (Get demoEnv (SetContext (NewRequest []) (WithCancel True)) ''http://example.com/'') =
     Inr \<lparr>resp = Some \<lparr>StatusCode = 200, RespBody = ''ok''\<rparr>\<rparr>"
proof -
  have "Get \<in> set allVerbs" by (simp add: allVerbs_def)
  with SetContext_never_reaches_the_request
         [of "NewRequest []" "WithCancel True" Get demoEnv "''http://example.com/''"]
  have "Context (SetContext (NewRequest []) (WithCancel True)) = WithCancel True" by blast
  moreover have "map Ctx (sentRequests (trace
      (Get demoEnv (SetContext (NewRequest []) (WithCancel True)) ''http://example.com/''))) =
     [Background]"
    by code_simp
  moreover have "result (Get demoEnv (SetContext (NewRequest []) (WithCancel True)) ''http://example.com/'') =
     Inr \<lparr>resp = Some \<lparr>StatusCode = 200, RespBody = ''ok''\<rparr>\<rparr>"
    by code_simp
  ultimately show ?thesis by blast
qed

subsection \<open>The whole trace of a dispatch\<close>

lemma dispatch_state_cong:
  assumes "\<And>h r. fst (runBeforeRequestHook E' h r) = fst (runBeforeRequestHook E h r)"
  shows "atDispatch E' req = atDispatch E req" "dispatchClient E' req = dispatchClient E req"
    "dispatchURL E' req url = dispatchURL E req url"
    "dispatchBody E' req verb p = dispatchBody E req verb p"
proof -
  have "ExecuteBeforeRequestHooks E' req = ExecuteBeforeRequestHooks E req"
    by (simp add: ExecuteBeforeRequestHooks_def rangeBeforeRequestHooks_cong[OF assms])
  then show a: "atDispatch E' req = atDispatch E req"
    and "dispatchClient E' req = dispatchClient E req"
    by (simp_all add: atDispatch_def dispatchClient_def)
  show "dispatchURL E' req url = dispatchURL E req url"
    "dispatchBody E' req verb p = dispatchBody E req verb p"
    by (simp_all add: dispatchURL_def dispatchBody_def a)
qed

lemma makeRequest_result:
  "result (makeRequest E req verb url p) =
     (case http_NewRequest E (ToUpper verb) (dispatchURL E req url) (dispatchBody E req verb p) of
        Inl err \<Rightarrow> Inl err
      | Inr request0 \<Rightarrow>
          (case client_Do E (dispatchClient E req) (configure (atDispatch E req) request0) of
             Inl err \<Rightarrow> Inl err
           | Inr r \<Rightarrow> Inr \<lparr>resp = Some r\<rparr>))"
proof (cases "http_NewRequest E (ToUpper verb) (dispatchURL E req url) (dispatchBody E req verb p)")
  case (Inl err)
  then show ?thesis by (simp add: makeRequest_construction_fails)
next
  case n: (Inr request0)
  show ?thesis
  proof (cases "client_Do E (dispatchClient E req) (configure (atDispatch E req) request0)")
    case (Inl err)
    with n show ?thesis by (simp add: makeRequest_exchange_fails)
  next
    case (Inr r)
    with n show ?thesis by (simp add: makeRequest_succeeds)
  qed
qed





subsection \<open>Failures\<close>

lemma failed_construction_in_trace:
  assumes "(v, u, b) \<in> set (newRequestCalls (trace (makeRequest E req verb url p)))"
    and "http_NewRequest E v u b = Inl err"
  shows "http_NewRequest E (ToUpper verb) (dispatchURL E req url) (dispatchBody E req verb p) = Inl err"
  using assms by (simp add: makeRequest_newRequestCalls)

lemma exchange_in_trace:
  assumes "(c, rq) \<in> set (doCalls (trace (makeRequest E req verb url p)))"
  shows "\<exists>request0.
      http_NewRequest E (ToUpper verb) (dispatchURL E req url) (dispatchBody E req verb p) = Inr request0
    \<and> c = dispatchClient E req \<and> rq = configure (atDispatch E req) request0"
  using assms
  by (cases "http_NewRequest E (ToUpper verb) (dispatchURL E req url) (dispatchBody E req verb p)")
    (simp_all add: makeRequest_doCalls)

text \<open>
  C5.  \<open>OnError\<close> appends to the hook list.  When the call of \<open>http.NewRequest\<close> a
  dispatch made fails, or the exchange it made through the client fails, the verb call
  returns that error and no response; the error hooks registered on the builder at that
  moment are called once each in the order of the list, with the builder and the error,
  as the last events of the dispatch; and the dispatch made one call of
  \<open>http.NewRequest\<close> and at most one exchange.
\<close>

theorem failure_returns_error_after_error_hooks:
  assumes "out = makeRequest E req verb url p"
  shows "errorHooks (OnError req h) = errorHooks req @ [h] \<and>
    ((v, u, b) \<in> set (newRequestCalls (trace out)) \<and> http_NewRequest E v u b = Inl err \<longrightarrow>
       result out = Inl err \<and> length (newRequestCalls (trace out)) = 1 \<and> doCalls (trace out) = [] \<and>
       errorHookCalls (trace out) =
         map (\<lambda>(h, r). (h, r, err))
           (zip (errorHooks (atDispatch E req))
                (passedToErrorHooks E (errorHooks (atDispatch E req)) (atDispatch E req) err)) \<and>
       (\<exists>pre. trace out = pre @ errorTrace E (atDispatch E req) err \<and> errorHookCalls pre = [])) \<and>
    ((c, rq) \<in> set (doCalls (trace out)) \<and> client_Do E c rq = Inl err \<longrightarrow>
       result out = Inl err \<and> length (newRequestCalls (trace out)) = 1 \<and>
       length (doCalls (trace out)) = 1 \<and>
       errorHookCalls (trace out) =
         map (\<lambda>(h, r). (h, r, err))
           (zip (errorHooks (atDispatch E req))
                (passedToErrorHooks E (errorHooks (atDispatch E req)) (atDispatch E req) err)) \<and>
       (\<exists>pre. trace out = pre @ errorTrace E (atDispatch E req) err \<and> errorHookCalls pre = []))"
proof (intro conjI impI)
  show "errorHooks (OnError req h) = errorHooks req @ [h]"
    by (simp add: OnError_def)
next
  assume "(v, u, b) \<in> set (newRequestCalls (trace out)) \<and> http_NewRequest E v u b = Inl err"
  then have n: "http_NewRequest E (ToUpper verb) (dispatchURL E req url) (dispatchBody E req verb p)
      = Inl err"
    unfolding assms using failed_construction_in_trace by blast
  note shape = makeRequest_construction_fails[OF n]
  show "result out = Inl err"
    by (simp add: assms shape)
  show "length (newRequestCalls (trace out)) = 1"
    by (simp add: assms makeRequest_newRequestCalls)
  show "doCalls (trace out) = []"
    by (simp add: assms makeRequest_doCalls n)
  show "errorHookCalls (trace out) =
         map (\<lambda>(h, r). (h, r, err))
           (zip (errorHooks (atDispatch E req))
                (passedToErrorHooks E (errorHooks (atDispatch E req)) (atDispatch E req) err))"
    by (simp add: assms shape beforeTrace_def errorTrace_def calls_append calls_Cons calls_Nil
        calls_of_before_events calls_of_error_events)
  have "errorHookCalls (beforeTrace E req
          @ [CallNewRequest (ToUpper verb) (dispatchURL E req url) (dispatchBody E req verb p)]) = []"
    by (simp add: beforeTrace_def calls_append calls_Cons calls_Nil calls_of_before_events)
  then show "\<exists>pre. trace out = pre @ errorTrace E (atDispatch E req) err \<and> errorHookCalls pre = []"
    unfolding assms shape by (intro exI[of _ "beforeTrace E req
          @ [CallNewRequest (ToUpper verb) (dispatchURL E req url) (dispatchBody E req verb p)]"]) simp
next
  assume a: "(c, rq) \<in> set (doCalls (trace out)) \<and> client_Do E c rq = Inl err"
  then obtain request0
    where n: "http_NewRequest E (ToUpper verb) (dispatchURL E req url) (dispatchBody E req verb p)
                = Inr request0"
      and c: "c = dispatchClient E req" and rq: "rq = configure (atDispatch E req) request0"
    unfolding assms using exchange_in_trace by blast
  from a have d: "client_Do E (dispatchClient E req) (configure (atDispatch E req) request0) = Inl err"
    by (simp add: c rq)
  note shape = makeRequest_exchange_fails[OF n d]
  show "result out = Inl err"
    by (simp add: assms shape)
  show "length (newRequestCalls (trace out)) = 1"
    by (simp add: assms makeRequest_newRequestCalls)
  show "length (doCalls (trace out)) = 1"
    by (simp add: assms makeRequest_doCalls n)
  show "errorHookCalls (trace out) =
         map (\<lambda>(h, r). (h, r, err))
           (zip (errorHooks (atDispatch E req))
                (passedToErrorHooks E (errorHooks (atDispatch E req)) (atDispatch E req) err))"
    by (simp add: assms shape beforeTrace_def errorTrace_def calls_append calls_Cons calls_Nil
        calls_of_before_events calls_of_error_events)
  have "errorHookCalls (beforeTrace E req
          @ [CallNewRequest (ToUpper verb) (dispatchURL E req url) (dispatchBody E req verb p),
             CallDo (dispatchClient E req) (configure (atDispatch E req) request0)]) = []"
    by (simp add: beforeTrace_def calls_append calls_Cons calls_Nil calls_of_before_events)
  then show "\<exists>pre. trace out = pre @ errorTrace E (atDispatch E req) err \<and> errorHookCalls pre = []"
    unfolding assms shape by (intro exI[of _ "beforeTrace E req
          @ [CallNewRequest (ToUpper verb) (dispatchURL E req url) (dispatchBody E req verb p),
             CallDo (dispatchClient E req) (configure (atDispatch E req) request0)]"]) simp
qed


lemma map_fst_error_calls:
  "length ps = length hs \<Longrightarrow> map fst (map (\<lambda>(h, r). (h, r, err)) (zip hs ps)) = hs"
  by (induction hs arbitrary: ps) (auto simp: length_Suc_conv)

theorem failure_returns_error_after_error_hooks_witness:
  "result (Get demoEnv (OnError (OnError (NewRequest []) 31) 32) ''http://down example/'') =
     Inl (Error ''invalid character in URL'') \<and>
   map fst (errorHookCalls (trace
     (Get demoEnv (OnError (OnError (NewRequest []) 31) 32) ''http://down example/''))) = [31, 32] \<and>
   result (Get demoEnv (OnError (OnError (NewRequest []) 31) 32) ''http://down.example/'') =
     Inl (Error ''connection refused'') \<and>
   map fst (errorHookCalls (trace
     (Get demoEnv (OnError (OnError (NewRequest []) 31) 32) ''http://down.example/''))) = [31, 32] \<and>
   length (doCalls (trace
     (Get demoEnv (OnError (OnError (NewRequest []) 31) 32) ''http://down.example/''))) = 1"
proof -
  define req where "req = OnError (OnError (NewRequest []) 31) 32"
  define out1 where "out1 = makeRequest demoEnv req ''GET'' ''http://down example/'' (formVals req)"
  define out2 where "out2 = makeRequest demoEnv req ''GET'' ''http://down.example/'' (formVals req)"
  have hs: "errorHooks (atDispatch demoEnv req) = [31, 32]"
    unfolding req_def by code_simp
  have n1: "(''GET'', ''http://down example/'', None) \<in> set (newRequestCalls (trace out1))"
    unfolding out1_def req_def by code_simp
  have f1: "http_NewRequest demoEnv ''GET'' ''http://down example/'' None =
      Inl (Error ''invalid character in URL'')"
    by (simp add: http_NewRequest_def demoEnv_def demoParse_def isTokenByte_def isLower_def
        isUpper_def isDigit_def)
  have "length (doCalls (trace out2)) = 1"
    unfolding out2_def req_def by code_simp
  then have d2: "doCalls (trace out2) \<noteq> []"
    by auto
  then have m2: "(fst (hd (doCalls (trace out2))), snd (hd (doCalls (trace out2))))
      \<in> set (doCalls (trace out2))"
    by simp
  have f2: "client_Do demoEnv (fst (hd (doCalls (trace out2)))) (snd (hd (doCalls (trace out2)))) =
      Inl (Error ''connection refused'')"
    unfolding out2_def req_def by code_simp
  have r1: "result out1 = Inl (Error ''invalid character in URL'') \<and>
      errorHookCalls (trace out1) =
         map (\<lambda>(h, r). (h, r, Error ''invalid character in URL''))
           (zip (errorHooks (atDispatch demoEnv req))
                (passedToErrorHooks demoEnv (errorHooks (atDispatch demoEnv req))
                   (atDispatch demoEnv req) (Error ''invalid character in URL'')))"
    using failure_returns_error_after_error_hooks
            [OF out1_def, where v = "''GET''" and u = "''http://down example/''" and b = None
               and err = "Error ''invalid character in URL''"] n1 f1
    by blast
  have r2: "result out2 = Inl (Error ''connection refused'') \<and>
      length (doCalls (trace out2)) = 1 \<and>
      errorHookCalls (trace out2) =
         map (\<lambda>(h, r). (h, r, Error ''connection refused''))
           (zip (errorHooks (atDispatch demoEnv req))
                (passedToErrorHooks demoEnv (errorHooks (atDispatch demoEnv req))
                   (atDispatch demoEnv req) (Error ''connection refused'')))"
    using failure_returns_error_after_error_hooks
            [OF out2_def, where c = "fst (hd (doCalls (trace out2)))"
               and rq = "snd (hd (doCalls (trace out2)))" and err = "Error ''connection refused''"]
            m2 f2
    by blast
  from r1 r2 show ?thesis
    unfolding Get_def req_def[symmetric] out1_def[symmetric] out2_def[symmetric]
    by (simp add: map_fst_error_calls hs)
qed

subsection \<open>The response handed to the after-response hooks\<close>

lemma result_without_after_hooks:
  "result (makeRequest (E\<lparr>runAfterResponseHook := f\<rparr>) req verb url p) =
     result (makeRequest E req verb url p)"
proof -
  let ?E = "E\<lparr>runAfterResponseHook := f\<rparr>"
  have b: "\<And>h r. fst (runBeforeRequestHook ?E h r) = fst (runBeforeRequestHook E h r)"
    by simp
  have n: "http_NewRequest ?E = http_NewRequest E"
    by (simp add: fun_eq_iff http_NewRequest_def)
  show ?thesis
    by (simp add: makeRequest_result dispatch_state_cong[OF b] n cong: sum.case_cong)
qed

text \<open>
  C6.  After a successful exchange the verb call returns the wrapper of the response the
  client gave, and the after-response hooks are called, in the order of the list, on a
  copy of that wrapper: the first hook is handed a copy equal to it and each later hook
  the copy as the hooks before it left it.  What a verb call returns is the same
  whatever the after-response hooks do to the wrapper they are handed.
\<close>

theorem after_response_hooks_work_on_a_copy:
  assumes "out = makeRequest E req verb url p"
  shows "((c, rq) \<in> set (doCalls (trace out)) \<and> client_Do E c rq = Inr r \<longrightarrow>
      result out = Inr \<lparr>resp = Some r\<rparr> \<and>
      afterHookCalls (trace out) =
        zip (afterResponseHooks (atDispatch E req))
            (passedCopies E (afterResponseHooks (atDispatch E req)) \<lparr>resp = Some r\<rparr>)) \<and>
    result (makeRequest (E\<lparr>runAfterResponseHook := f\<rparr>) req verb url p) = result out"
proof (intro conjI impI)
  assume a: "(c, rq) \<in> set (doCalls (trace out)) \<and> client_Do E c rq = Inr r"
  then obtain request0
    where n: "http_NewRequest E (ToUpper verb) (dispatchURL E req url) (dispatchBody E req verb p)
                = Inr request0"
      and c: "c = dispatchClient E req" and rq: "rq = configure (atDispatch E req) request0"
    unfolding assms using exchange_in_trace by blast
  from a have d: "client_Do E (dispatchClient E req) (configure (atDispatch E req) request0) = Inr r"
    by (simp add: c rq)
  note shape = makeRequest_succeeds[OF n d]
  show "result out = Inr \<lparr>resp = Some r\<rparr>"
    by (simp add: assms shape)
  show "afterHookCalls (trace out) =
        zip (afterResponseHooks (atDispatch E req))
            (passedCopies E (afterResponseHooks (atDispatch E req)) \<lparr>resp = Some r\<rparr>)"
    by (simp add: assms shape beforeTrace_def afterTrace_def calls_append calls_Cons calls_Nil
        calls_of_before_events calls_of_after_events)
next
  show "result (makeRequest (E\<lparr>runAfterResponseHook := f\<rparr>) req verb url p) = result out"
    unfolding assms by (rule result_without_after_hooks)
qed

theorem after_response_hooks_work_on_a_copy_witness:
  "result (Get demoEnv (OnAfterResponse (OnAfterResponse (NewRequest []) 21) 22)
       ''http://example.com/'') =
     Inr \<lparr>resp = Some \<lparr>StatusCode = 200, RespBody = ''ok''\<rparr>\<rparr> \<and>
   afterHookCalls (trace (Get demoEnv (OnAfterResponse (OnAfterResponse (NewRequest []) 21) 22)
       ''http://example.com/'')) =
     [(21, \<lparr>resp = Some \<lparr>StatusCode = 200, RespBody = ''ok''\<rparr>\<rparr>), (22, \<lparr>resp = None\<rparr>)]"
proof -
  define req where "req = OnAfterResponse (OnAfterResponse (NewRequest []) 21) 22"
  define out where "out = makeRequest demoEnv req ''GET'' ''http://example.com/'' (formVals req)"
  have hs: "afterResponseHooks (atDispatch demoEnv req) = [21, 22]"
    unfolding req_def by code_simp
  have "length (doCalls (trace out)) = 1"
    unfolding out_def req_def by code_simp
  then have "doCalls (trace out) \<noteq> []"
    by auto
  then have m: "(fst (hd (doCalls (trace out))), snd (hd (doCalls (trace out))))
      \<in> set (doCalls (trace out))"
    by simp
  have d: "client_Do demoEnv (fst (hd (doCalls (trace out)))) (snd (hd (doCalls (trace out)))) =
      Inr \<lparr>StatusCode = 200, RespBody = ''ok''\<rparr>"
    unfolding out_def req_def by code_simp
  have "result out = Inr \<lparr>resp = Some \<lparr>StatusCode = 200, RespBody = ''ok''\<rparr>\<rparr> \<and>
      afterHookCalls (trace out) =
        zip (afterResponseHooks (atDispatch demoEnv req))
            (passedCopies demoEnv (afterResponseHooks (atDispatch demoEnv req))
               \<lparr>resp = Some \<lparr>StatusCode = 200, RespBody = ''ok''\<rparr>\<rparr>)"
    using after_response_hooks_work_on_a_copy
            [OF out_def, where c = "fst (hd (doCalls (trace out)))"
               and rq = "snd (hd (doCalls (trace out)))"
               and r = "\<lparr>StatusCode = 200, RespBody = ''ok''\<rparr>"] m d
    by blast
  moreover have "passedCopies demoEnv [21, 22] \<lparr>resp = Some \<lparr>StatusCode = 200, RespBody = ''ok''\<rparr>\<rparr> =
      [\<lparr>resp = Some \<lparr>StatusCode = 200, RespBody = ''ok''\<rparr>\<rparr>, \<lparr>resp = None\<rparr>]"
    by (simp add: demoEnv_def demoAfter_def)
  ultimately show ?thesis
    unfolding Get_def req_def[symmetric] out_def[symmetric]
    by (simp add: hs)
qed

subsection \<open>The headers of the request sent\<close>

lemma setHeaders_snoc:
  "setHeaders rq (hs @ [(k, v)]) =
     (setHeaders rq hs)\<lparr>Header := Header_Set (Header (setHeaders rq hs)) k v\<rparr>"
  by (simp add: setHeaders_def)

lemma setHeaders_Header:
  assumes "distinct (map fst hs)" and "(k, v) \<in> set hs"
    and "\<forall>(k', v') \<in> set hs. CanonicalMIMEHeaderKey k' = CanonicalMIMEHeaderKey k \<longrightarrow> k' = k"
  shows "Header (setHeaders rq hs) (CanonicalMIMEHeaderKey k) = Some [v]"
  using assms
proof (induction hs rule: rev_induct)
  case Nil
  then show ?case by simp
next
  case (snoc x hs)
  obtain k' v' where x: "x = (k', v')" by (cases x)
  show ?case
  proof (cases "k' = k")
    case True
    with snoc.prems x have "v' = v"
      by (auto simp: image_iff)
    with True x show ?thesis
      by (simp add: setHeaders_snoc Header_Set_def)
  next
    case False
    with snoc.prems x have ne: "CanonicalMIMEHeaderKey k' \<noteq> CanonicalMIMEHeaderKey k"
      and m: "(k, v) \<in> set hs"
      by auto
    from snoc.prems have "distinct (map fst hs)"
      and "\<forall>(k', v') \<in> set hs. CanonicalMIMEHeaderKey k' = CanonicalMIMEHeaderKey k \<longrightarrow> k' = k"
      by auto
    with snoc.IH m have "Header (setHeaders rq hs) (CanonicalMIMEHeaderKey k) = Some [v]"
      by blast
    with ne x show ?thesis
      by (simp add: setHeaders_snoc Header_Set_def)
  qed
qed

lemma configure_Header:
  "Header (configure req rq) =
     Header (setHeaders
       (if basicUser req \<noteq> [] \<and> basicPasswd req \<noteq> []
        then SetBasicAuth (rq\<lparr>Header := Header_Set (Header rq) ''Content-Type'' (contentType req)\<rparr>)
               (basicUser req) (basicPasswd req)
        else rq\<lparr>Header := Header_Set (Header rq) ''Content-Type'' (contentType req)\<rparr>)
       (headers req))"
  by (simp add: configure_def Let_def split: option.splits)

lemma configure_Host:
  assumes "map_of (headers req) ''Host'' = Some h"
  shows "Host (configure req rq) = h"
  using assms by (simp add: configure_def Let_def)

lemma sentRequest_is_configured:
  assumes "rq \<in> set (sentRequests (trace (makeRequest E req verb url p)))"
  shows "\<exists>request0.
      http_NewRequest E (ToUpper verb) (dispatchURL E req url) (dispatchBody E req verb p) = Inr request0
    \<and> rq = configure (atDispatch E req) request0"
  using assms
  by (cases "http_NewRequest E (ToUpper verb) (dispatchURL E req url) (dispatchBody E req verb p)")
    (simp_all add: sentRequests_def makeRequest_doCalls)

text \<open>
  C3, as stated, fails: header keys are canonicalised when they are set, so
  two keys of the map that differ only in case are written to one header and one value
  is lost.  With the map holding \<open>x-a\<close> and \<open>X-A\<close>, the request sent holds one value under
  \<open>X-A\<close>, the one enumerated last, whichever way the runtime enumerates the map, and
  nothing under \<open>x-a\<close>.
\<close>

theorem headers_superset_counterexample:
  "distinct (map fst [(''x-a'', ''1''), (''X-A'', ''2'')]) \<and>
   map (\<lambda>rq. (Header rq ''x-a'', Header rq (CanonicalMIMEHeaderKey ''x-a'')))
     (sentRequests (trace (Post demoEnv (Headers (NewRequest []) [(''x-a'', ''1''), (''X-A'', ''2'')])
        ''http://example.com/''))) = [(None, Some [''2''])] \<and>
   map (\<lambda>rq. (Header rq ''x-a'', Header rq (CanonicalMIMEHeaderKey ''X-A'')))
     (sentRequests (trace (Post demoEnv (Headers (NewRequest []) [(''X-A'', ''2''), (''x-a'', ''1'')])
        ''http://example.com/''))) = [(None, Some [''1''])]"
  by code_simp

text \<open>
  C3, amended.  Let \<open>H\<close> be the header map set by \<open>Headers\<close> and still in place when the
  request is built.  For every key of \<open>H\<close> whose canonical form no other key of \<open>H\<close> shares,
  the request sent holds exactly the value of \<open>H\<close> under the canonical form of the key,
  whatever the content type and the basic-auth credentials of the builder are; and when
  \<open>H\<close> has the key \<open>Host\<close>, the host field of the request sent is its value.
\<close>

theorem headers_override_earlier_steps:
  assumes "headers (atDispatch E (Headers req H)) = H" and "distinct (map fst H)"
    and "rq \<in> set (sentRequests (trace (makeRequest E (Headers req H) verb url p)))"
  shows "((k, v) \<in> set H \<and>
          (\<forall>(k', v') \<in> set H. CanonicalMIMEHeaderKey k' = CanonicalMIMEHeaderKey k \<longrightarrow> k' = k) \<longrightarrow>
            Header rq (CanonicalMIMEHeaderKey k) = Some [v]) \<and>
         ((''Host'', h) \<in> set H \<longrightarrow> Host rq = h)"
proof -
  from sentRequest_is_configured[OF assms(3)] obtain request0
    where rq: "rq = configure (atDispatch E (Headers req H)) request0" by blast
  show ?thesis
  proof (intro conjI impI)
    assume "(k, v) \<in> set H \<and>
          (\<forall>(k', v') \<in> set H. CanonicalMIMEHeaderKey k' = CanonicalMIMEHeaderKey k \<longrightarrow> k' = k)"
    then show "Header rq (CanonicalMIMEHeaderKey k) = Some [v]"
      unfolding rq configure_Header assms(1)
      using setHeaders_Header[OF assms(2)] by blast
  next
    assume "(''Host'', h) \<in> set H"
    with assms(2) have "map_of H ''Host'' = Some h" by simp
    then show "Host rq = h"
      unfolding rq by (simp add: configure_Host assms(1))
  qed
qed


theorem headers_override_earlier_steps_witness:
  "length (sentRequests (trace (Post demoEnv
      (Headers (BasicAuth (Text (NewRequest []) ''hello'') ''u'' ''p'')
         [(''content-type'', ''text/xml''), (''Authorization'', ''Bearer t''),
          (''Host'', ''virtual.example'')])
      ''http://example.com/''))) = 1 \<and>
   Header (hd (sentRequests (trace (Post demoEnv
      (Headers (BasicAuth (Text (NewRequest []) ''hello'') ''u'' ''p'')
         [(''content-type'', ''text/xml''), (''Authorization'', ''Bearer t''),
          (''Host'', ''virtual.example'')])
      ''http://example.com/'')))) ''Content-Type'' = Some [''text/xml''] \<and>
   Header (hd (sentRequests (trace (Post demoEnv
      (Headers (BasicAuth (Text (NewRequest []) ''hello'') ''u'' ''p'')
         [(''content-type'', ''text/xml''), (''Authorization'', ''Bearer t''),
          (''Host'', ''virtual.example'')])
      ''http://example.com/'')))) ''Authorization'' = Some [''Bearer t''] \<and>
   Host (hd (sentRequests (trace (Post demoEnv
      (Headers (BasicAuth (Text (NewRequest []) ''hello'') ''u'' ''p'')
         [(''content-type'', ''text/xml''), (''Authorization'', ''Bearer t''),
          (''Host'', ''virtual.example'')])
      ''http://example.com/'')))) = ''virtual.example''"
proof -
  define H where "H = [(''content-type'', ''text/xml''), (''Authorization'', ''Bearer t''),
          (''Host'', ''virtual.example'')]"
  define req where "req = BasicAuth (Text (NewRequest []) ''hello'') ''u'' ''p''"
  define T where "T = trace (makeRequest demoEnv (Headers req H) ''POST'' ''http://example.com/''
      (formVals (Headers req H)))"
  have a: "headers (atDispatch demoEnv (Headers req H)) = H"
    unfolding req_def H_def by code_simp
  have d: "distinct (map fst H)"
    unfolding H_def by simp
  have l: "length (sentRequests T) = 1"
    unfolding T_def req_def H_def by code_simp
  then have "sentRequests T \<noteq> []" by auto
  then have m: "hd (sentRequests T) \<in> set (sentRequests T)" by simp
  note t = headers_override_earlier_steps[OF a d m[unfolded T_def]]
  have c1: "(''content-type'', ''text/xml'') \<in> set H \<and>
      (\<forall>(k', v') \<in> set H. CanonicalMIMEHeaderKey k' = CanonicalMIMEHeaderKey ''content-type''
          \<longrightarrow> k' = ''content-type'')"
    unfolding H_def by code_simp
  have c2: "(''Authorization'', ''Bearer t'') \<in> set H \<and>
      (\<forall>(k', v') \<in> set H. CanonicalMIMEHeaderKey k' = CanonicalMIMEHeaderKey ''Authorization''
          \<longrightarrow> k' = ''Authorization'')"
    unfolding H_def by code_simp
  have c3: "(''Host'', ''virtual.example'') \<in> set H"
    unfolding H_def by simp
  have k1: "CanonicalMIMEHeaderKey ''content-type'' = ''Content-Type''"
    and k2: "CanonicalMIMEHeaderKey ''Authorization'' = ''Authorization''"
    by code_simp+
  from t[of "''content-type''" "''text/xml''" "''virtual.example''"] c1 c3
  have "Header (hd (sentRequests T)) ''Content-Type'' = Some [''text/xml'']"
    and "Host (hd (sentRequests T)) = ''virtual.example''"
    unfolding T_def[symmetric] k1 by blast+
  moreover from t[of "''Authorization''" "''Bearer t''" "''virtual.example''"] c2
  have "Header (hd (sentRequests T)) ''Authorization'' = Some [''Bearer t'']"
    unfolding T_def[symmetric] k2 by blast
  ultimately show ?thesis
    using l unfolding Post_def T_def H_def req_def by (intro conjI)
qed

subsection \<open>The content type of the request sent\<close>

lemma setHeaders_Header_other:
  assumes "\<forall>(k, v) \<in> set hs. CanonicalMIMEHeaderKey k \<noteq> c"
  shows "Header (setHeaders rq hs) c = Header rq c"
  using assms
proof (induction hs rule: rev_induct)
  case Nil
  then show ?case by (simp add: setHeaders_def)
next
  case (snoc x hs)
  obtain k v where x: "x = (k, v)" by (cases x)
  from snoc show ?case
    by (auto simp: x setHeaders_snoc Header_Set_def)
qed

lemma canonical_known_keys:
  "CanonicalMIMEHeaderKey ''Content-Type'' = ''Content-Type''"
  "CanonicalMIMEHeaderKey ''Authorization'' = ''Authorization''"
  by code_simp+

lemma configure_Content_Type:
  assumes "\<forall>(k, v) \<in> set (headers req). CanonicalMIMEHeaderKey k \<noteq> ''Content-Type''"
  shows "Header (configure req rq) ''Content-Type'' = Some [contentType req]"
  unfolding configure_Header
  by (simp add: setHeaders_Header_other[OF assms] SetBasicAuth_def Header_Set_def
      canonical_known_keys)

lemma sentRequests_Content_Type:
  assumes "\<forall>(k, v) \<in> set (headers (atDispatch E req)). CanonicalMIMEHeaderKey k \<noteq> ''Content-Type''"
    and "rq \<in> set (sentRequests (trace (makeRequest E req verb url p)))"
  shows "Header rq ''Content-Type'' = Some [contentType (atDispatch E req)]"
proof -
  from sentRequest_is_configured[OF assms(2)] obtain request0
    where "rq = configure (atDispatch E req) request0" by blast
  then show ?thesis by (simp add: configure_Content_Type[OF assms(1)])
qed

text \<open>
  C8.  When \<open>json.Marshal\<close> succeeds on the map, \<open>JSON\<close> returns the builder with the
  content type \<open>application/json\<close> and a body buffer holding the bytes \<open>json.Marshal\<close>
  gave.  Every verb method then sends a request whose \<open>Content-Type\<close> header is that
  content type, when the builder's content type is still in place as the request is built
  and no key of the header map stands for \<open>Content-Type\<close>.
\<close>

theorem JSON_sets_body_and_content_type:
  assumes "json_Marshal E M = Inr data"
  shows "\<exists>r. JSON E req M = Inr r \<and> contentType r = ''application/json'' \<and>
           formVals r = NewBuffer data \<and>
           (verb \<in> set allVerbs \<and> contentType (atDispatch E r) = contentType r \<and>
            (\<forall>(k, v) \<in> set (headers (atDispatch E r)). CanonicalMIMEHeaderKey k \<noteq> ''Content-Type'')
            \<longrightarrow> list_all (\<lambda>rq. Header rq ''Content-Type'' = Some [''application/json''])
                   (sentRequests (trace (verb E r url))))"
proof -
  define r where "r = req\<lparr>formVals := NewBuffer data, contentType := ''application/json''\<rparr>"
  have j: "JSON E req M = Inr r"
    by (simp add: JSON_def assms r_def)
  have c: "contentType r = ''application/json''" and f: "formVals r = NewBuffer data"
    by (simp_all add: r_def)
  have "list_all (\<lambda>rq. Header rq ''Content-Type'' = Some [''application/json''])
          (sentRequests (trace (verb E r url)))"
    if v: "verb \<in> set allVerbs" and k: "contentType (atDispatch E r) = contentType r"
      and h: "\<forall>(k, v) \<in> set (headers (atDispatch E r)). CanonicalMIMEHeaderKey k \<noteq> ''Content-Type''"
  proof -
    from allVerbs_makeRequest[OF v] obtain vb
      where "verb = (\<lambda>E req url. makeRequest E req vb url (formVals req))" by (rule exE)
    then show ?thesis
      unfolding list_all_iff using sentRequests_Content_Type[OF h] by (simp add: k c)
  qed
  with j c f show ?thesis by blast
qed

theorem JSON_sets_body_and_content_type_witness:
  "json_Marshal demoEnv [(''x'', JNumber 1)] =
     Inr [CHR ''{'', CHR 0x22, CHR ''x'', CHR 0x22, CHR '':'', CHR ''1'', CHR ''}''] \<and>
   map_sum id (\<lambda>r. (contentType r, formVals r)) (JSON demoEnv (NewRequest []) [(''x'', JNumber 1)]) =
     Inr (''application/json'',
          NewBuffer [CHR ''{'', CHR 0x22, CHR ''x'', CHR 0x22, CHR '':'', CHR ''1'', CHR ''}'']) \<and>
   (case JSON demoEnv (NewRequest []) [(''x'', JNumber 1)] of
      Inl err \<Rightarrow> []
    | Inr r \<Rightarrow> map (\<lambda>rq. Header rq ''Content-Type'')
                (sentRequests (trace (Post demoEnv r ''http://example.com/'')))) =
     [Some [''application/json'']]"
proof -
  define data where "data = [CHR ''{'', CHR 0x22, CHR ''x'', CHR 0x22, CHR '':'', CHR ''1'', CHR ''}'']"
  have m: "json_Marshal demoEnv [(''x'', JNumber 1)] = Inr data"
    by (simp add: demoEnv_def demoMarshal_def data_def)
  from JSON_sets_body_and_content_type[OF m, of "NewRequest []" Post "''http://example.com/''"]
  obtain r where j: "JSON demoEnv (NewRequest []) [(''x'', JNumber 1)] = Inr r"
    and c: "contentType r = ''application/json''" and f: "formVals r = NewBuffer data"
    and s: "Post \<in> set allVerbs \<and> contentType (atDispatch demoEnv r) = contentType r \<and>
            (\<forall>(k, v) \<in> set (headers (atDispatch demoEnv r)). CanonicalMIMEHeaderKey k \<noteq> ''Content-Type'')
            \<longrightarrow> list_all (\<lambda>rq. Header rq ''Content-Type'' = Some [''application/json''])
                   (sentRequests (trace (Post demoEnv r ''http://example.com/'')))"
    by blast
  have r: "r = (NewRequest [])\<lparr>formVals := NewBuffer data, contentType := ''application/json''\<rparr>"
    using j by (simp add: JSON_def m)
  have p: "Post \<in> set allVerbs"
    by (simp add: allVerbs_def otherVerbs_def)
  have k: "contentType (atDispatch demoEnv r) = contentType r"
    unfolding r data_def by code_simp
  have h: "\<forall>(k, v) \<in> set (headers (atDispatch demoEnv r)). CanonicalMIMEHeaderKey k \<noteq> ''Content-Type''"
    unfolding r data_def by code_simp
  from s p k h have a: "list_all (\<lambda>rq. Header rq ''Content-Type'' = Some [''application/json''])
                   (sentRequests (trace (Post demoEnv r ''http://example.com/'')))"
    by blast
  have l: "length (sentRequests (trace (Post demoEnv r ''http://example.com/''))) = 1"
    unfolding r data_def by code_simp
  from a l have "map (\<lambda>rq. Header rq ''Content-Type'')
                (sentRequests (trace (Post demoEnv r ''http://example.com/''))) =
     [Some [''application/json'']]"
    by (cases "sentRequests (trace (Post demoEnv r ''http://example.com/''))") simp_all
  with m j c f show ?thesis
    unfolding data_def by simp
qed

subsection \<open>The encoding of a query\<close>

lemma escapeByte_is_percentEscapeByte: "\<forall>c. escapeByte c = percentEscapeByte c"
  by code_simp

lemma hexValue_of_digits:
  "\<forall>c. hexValue (hexDigits ! ((of_char c :: nat) div 16)) = Some (of_char c div 16) \<and>
       hexValue (hexDigits ! ((of_char c :: nat) mod 16)) = Some (of_char c mod 16)"
  by code_simp

lemma percentEscapeByte_safe: "\<forall>c. list_all urlSafe (percentEscapeByte c)"
  by code_simp

lemma QueryEscape_is_percentEscape: "QueryEscape s = percentEscape s"
proof -
  have "escapeByte = percentEscapeByte"
    using escapeByte_is_percentEscapeByte by (simp add: fun_eq_iff)
  then show ?thesis
    by (simp add: QueryEscape_def percentEscape_def)
qed

lemma percentDecode_byte:
  "percentDecode (percentEscapeByte c @ rest) = map_option (Cons c) (percentDecode rest)"
proof -
  have u: "c \<noteq> CHR ''%'' \<and> c \<noteq> CHR ''+''" if "c \<in> set unreservedBytes"
    using that by (auto simp: unreservedBytes_def)
  have n: "16 * ((of_char c :: nat) div 16) + of_char c mod 16 = of_char c"
    by simp
  show ?thesis
    using hexValue_of_digits u
    by (simp add: percentEscapeByte_def n)
qed

lemma percentDecode_percentEscape: "percentDecode (percentEscape s) = Some s"
proof (induction s)
  case Nil
  then show ?case by (simp add: percentEscape_def)
next
  case (Cons c s)
  have "percentEscape (c # s) = percentEscapeByte c @ percentEscape s"
    by (simp add: percentEscape_def)
  with Cons show ?case by (simp only: percentDecode_byte) simp
qed

lemma percentEscape_safe: "list_all urlSafe (percentEscape s)"
  using percentEscapeByte_safe by (induction s) (simp_all add: percentEscape_def)

lemma Values_Add_fresh:
  "key \<notin> fst ` set vals \<Longrightarrow> Values_Add vals key val = vals @ [(key, [val])]"
  by (induction vals key val rule: Values_Add.induct) auto

lemma foldl_Values_Add:
  assumes "distinct (map fst Q)" and "fst ` set Q \<inter> fst ` set vals = {}"
  shows "foldl (\<lambda>vals (key, val). Values_Add vals key val) vals Q =
           vals @ map (\<lambda>(k, v). (k, [v])) Q"
  using assms
proof (induction Q arbitrary: vals)
  case Nil
  then show ?case by simp
next
  case (Cons x Q)
  obtain k v where x: "x = (k, v)" by (cases x)
  from Cons.prems x have fresh: "k \<notin> fst ` set vals" by auto
  from Cons.prems x have d: "distinct (map fst Q)"
    and "fst ` set Q \<inter> fst ` set (vals @ [(k, [v])]) = {}"
    by auto
  from Cons.IH[OF this] show ?case
    by (simp add: x Values_Add_fresh[OF fresh])
qed

lemma addAll_distinct:
  "distinct (map fst Q) \<Longrightarrow> addAll Q = map (\<lambda>(k, v). (k, [v])) Q"
  using foldl_Values_Add[of Q "[]"] by (simp add: addAll_def)

lemma map_insort_key: "map f (insort_key f x xs) = insort (f x) (map f xs)"
  by (induction xs) simp_all

lemma map_sort_key: "map f (sort_key f xs) = sort (map f xs)"
  by (induction xs) (simp_all add: map_insort_key)

lemma pairs_of_sorted_keys:
  assumes "distinct (map fst Q)"
  shows "concat (map (\<lambda>k. map (Pair k)
                    (case map_of (map (\<lambda>(k, v). (k, [v])) Q) k of None \<Rightarrow> [] | Some vs \<Rightarrow> vs))
           (sort (map fst Q))) = sort_key fst Q"
proof -
  have look: "map_of (map (\<lambda>(k, v). (k, [v])) Q) (fst y) = Some [snd y]" if "y \<in> set Q" for y
  proof -
    from that have "(fst y, snd y) \<in> set Q"
      by simp
    then have "map_of Q (fst y) = Some (snd y)"
      by (simp only: map_of_eq_Some_iff[OF assms])
    moreover have "map_of (map (\<lambda>(k, v). (k, [v])) Q) = map_option (\<lambda>v. [v]) \<circ> map_of Q"
      by (induction Q) (auto simp: fun_eq_iff)
    ultimately show ?thesis by simp
  qed
  have "concat (map (\<lambda>k. map (Pair k)
                    (case map_of (map (\<lambda>(k, v). (k, [v])) Q) k of None \<Rightarrow> [] | Some vs \<Rightarrow> vs))
           (map fst ys)) = ys" if "set ys \<subseteq> set Q" for ys
    using that by (induction ys) (simp_all add: look)
  from this[of "sort_key fst Q"] show ?thesis
    by (simp add: map_sort_key)
qed

lemma joinWith_Cons:
  "joinWith sep (x # xs) = (if xs = [] then x else x @ sep @ joinWith sep xs)"
  by (cases xs) simp_all

lemma writePairs_join:
  "writePairs buf ps =
     (if ps = [] then buf
      else (if buf \<noteq> [] then buf @ ''&'' else buf)
             @ joinWith ''&'' (map (\<lambda>(k, v). percentEscape k @ ''='' @ percentEscape v) ps))"
proof (induction buf ps rule: writePairs.induct)
  case (1 buf)
  then show ?case by simp
next
  case (2 buf k v ps)
  then show ?case by (simp add: joinWith_Cons QueryEscape_is_percentEscape)
qed

lemma Values_Encode_addAll:
  assumes "distinct (map fst Q)"
  shows "Values_Encode (addAll Q) = formEncoding Q"
proof (cases "Q = []")
  case True
  then show ?thesis by (simp add: Values_Encode_def addAll_def formEncoding_def)
next
  case False
  define V where "V = map (\<lambda>(k, v). (k, [v])) Q"
  have keys: "map fst V = map fst Q"
    unfolding V_def by (induction Q) auto
  from False have ne: "sort_key fst Q \<noteq> []" "V \<noteq> []"
    by (simp_all add: V_def) (metis length_0_conv length_sort)
  have "Values_Encode V =
      writePairs [] (concat (map (\<lambda>k. map (Pair k)
                    (case map_of V k of None \<Rightarrow> [] | Some vs \<Rightarrow> vs)) (sort (map fst V))))"
    using ne(2) by (simp add: Values_Encode_def)
  also have "\<dots> = writePairs [] (sort_key fst Q)"
    unfolding keys unfolding V_def by (simp only: pairs_of_sorted_keys[OF assms])
  also have "\<dots> = formEncoding Q"
    using ne(1) by (simp add: writePairs_join formEncoding_def)
  finally show ?thesis
    by (simp add: addAll_distinct[OF assms] V_def)
qed

lemma joinWith_nonempty:
  "xs \<noteq> [] \<Longrightarrow> \<forall>x \<in> set xs. x \<noteq> [] \<Longrightarrow> joinWith sep xs \<noteq> []"
  by (cases xs) (simp_all add: joinWith_Cons)

lemma formEncoding_nonempty:
  assumes "Q \<noteq> []"
  shows "formEncoding Q \<noteq> []"
proof -
  from assms have "sort_key fst Q \<noteq> []"
    by (metis length_0_conv length_sort)
  then show ?thesis
    unfolding formEncoding_def by (intro joinWith_nonempty) auto
qed



text \<open>
  C7.  For a non-empty map \<open>Q\<close>, \<open>Query\<close> sets the query string to the form encoding of
  \<open>Q\<close>: the pairs sorted by key, keys and values percent-escaped, joined by \<open>&\<close>.  The
  escaped form of every key and value is made of unreserved bytes, \<open>%\<close> and \<open>+\<close> only
  and reads back as the key or value.  When that query string is still in place as the
  request is built, every verb method hands the platform the target URL followed by \<open>?\<close>
  and the encoding, whatever the URL holds already, and the request it sends has that
  URL.
\<close>

theorem query_is_appended_to_the_url:
  assumes "Q \<noteq> []" and "distinct (map fst Q)"
    and "queryVals (atDispatch E (Query req Q)) = queryVals (Query req Q)"
    and "verb \<in> set allVerbs"
  shows "queryVals (Query req Q) = formEncoding Q \<and>
     map (fst \<circ> snd) (newRequestCalls (trace (verb E (Query req Q) url))) =
       [url @ ''?'' @ formEncoding Q] \<and>
     list_all (\<lambda>rq. URL rq = url @ ''?'' @ formEncoding Q)
       (sentRequests (trace (verb E (Query req Q) url))) \<and>
     list_all (\<lambda>(k, v). percentDecode (QueryEscape k) = Some k \<and> list_all urlSafe (QueryEscape k) \<and>
                         percentDecode (QueryEscape v) = Some v \<and> list_all urlSafe (QueryEscape v)) Q"
proof -
  have q: "queryVals (Query req Q) = formEncoding Q"
    by (simp add: Query_def Values_Encode_addAll[OF assms(2)])
  from allVerbs_makeRequest[OF assms(4)] obtain v
    where f: "verb = (\<lambda>E req url. makeRequest E req v url (formVals req))" by (rule exE)
  have u: "dispatchURL E (Query req Q) url = url @ ''?'' @ formEncoding Q"
    using formEncoding_nonempty[OF assms(1)] by (simp add: dispatchURL_def assms(3) q)
  have "map (fst \<circ> snd) (newRequestCalls (trace (verb E (Query req Q) url))) =
       [url @ ''?'' @ formEncoding Q]"
    by (simp add: f makeRequest_newRequestCalls u)
  moreover have "list_all (\<lambda>rq. URL rq = url @ ''?'' @ formEncoding Q)
       (sentRequests (trace (verb E (Query req Q) url)))"
    unfolding list_all_iff f using sentRequests_fields(3)[of _ E "Query req Q" v url] u by simp
  moreover have "list_all (\<lambda>(k, v). percentDecode (QueryEscape k) = Some k \<and>
                         list_all urlSafe (QueryEscape k) \<and>
                         percentDecode (QueryEscape v) = Some v \<and> list_all urlSafe (QueryEscape v)) Q"
    by (simp add: list_all_iff case_prod_unfold QueryEscape_is_percentEscape
        percentDecode_percentEscape percentEscape_safe[unfolded list_all_iff])
  ultimately show ?thesis using q by (intro conjI)
qed

theorem query_is_appended_to_the_url_witness:
  "queryVals (Query (NewRequest []) [(''b'', ''2''), (''a'', ''1'')]) = ''a=1&b=2'' \<and>
   map (fst \<circ> snd) (newRequestCalls (trace
     (Get demoEnv (Query (NewRequest []) [(''b'', ''2''), (''a'', ''1'')]) ''http://example.com/''))) =
     [''http://example.com/?a=1&b=2''] \<and>
   map (fst \<circ> snd) (newRequestCalls (trace
     (Post demoEnv (Query (NewRequest []) [(''q r'', ''x&y=z/~'' @ [CHR 0xC3, CHR 0xA9]), (''a+'', ''1'')])
        ''http://example.com/?z=9''))) =
     [''http://example.com/?z=9?a%2B=1&q+r=x%26y%3Dz%2F~%C3%A9'']"
proof -
  have e: "formEncoding [(''b'', ''2''), (''a'', ''1'')] = ''a=1&b=2''"
    "formEncoding [(''q r'', ''x&y=z/~'' @ [CHR 0xC3, CHR 0xA9]), (''a+'', ''1'')] =
       ''a%2B=1&q+r=x%26y%3Dz%2F~%C3%A9''"
    by code_simp+
  have h: "queryVals (atDispatch demoEnv (Query (NewRequest []) [(''b'', ''2''), (''a'', ''1'')])) =
      queryVals (Query (NewRequest []) [(''b'', ''2''), (''a'', ''1'')])"
    "queryVals (atDispatch demoEnv
        (Query (NewRequest []) [(''q r'', ''x&y=z/~'' @ [CHR 0xC3, CHR 0xA9]), (''a+'', ''1'')])) =
      queryVals (Query (NewRequest []) [(''q r'', ''x&y=z/~'' @ [CHR 0xC3, CHR 0xA9]), (''a+'', ''1'')])"
    by code_simp+
  have v: "Get \<in> set allVerbs" "Post \<in> set allVerbs"
    by (simp_all add: allVerbs_def otherVerbs_def)
  have d: "distinct (map fst [(''b'', ''2''), (''a'', ''1'')])"
    "distinct (map fst [(''q r'', ''x&y=z/~'' @ [CHR 0xC3, CHR 0xA9]), (''a+'', ''1'')])"
    by simp_all
  from query_is_appended_to_the_url[OF _ d(1) h(1) v(1), of "''http://example.com/''"]
    query_is_appended_to_the_url[OF _ d(2) h(2) v(2), of "''http://example.com/?z=9''"]
  show ?thesis
    unfolding e by simp
qed

subsection \<open>Multipart fields\<close>

lemma atDispatch_no_hooks:
  assumes "beforeRequestHooks req = []"
  shows "atDispatch E req = closeWriter (snd (createClient req))"
  by (simp add: atDispatch_def ExecuteBeforeRequestHooks_def assms)

lemma createClient_fields:
  "contentType (snd (createClient req)) = contentType req"
  "headers (snd (createClient req)) = headers req"
  "writer (snd (createClient req)) = writer req"
  "multipartBuffer (snd (createClient req)) = multipartBuffer req"
  by (simp_all add: createClient_def Let_def split: option.splits)

lemma closeWriter_fields:
  "contentType (closeWriter req) = contentType req"
  "headers (closeWriter req) = headers req"
  by (simp_all add: closeWriter_def case_prod_unfold split: option.splits)

lemma MultipartFormData_fields:
  "formVals (MultipartFormData E req fd) = formVals req"
  "contentType (MultipartFormData E req fd) = contentType req"
  "headers (MultipartFormData E req fd) = headers req"
  "beforeRequestHooks (MultipartFormData E req fd) = beforeRequestHooks req"
  "multipartBuffer (MultipartFormData E req fd) =
     snd (writeFields (getWriter E req) (multipartBuffer req) fd)"
  by (simp_all add: MultipartFormData_def case_prod_unfold)

lemma WriteField_append:
  "WriteField w buf k v = (fst (WriteField w [] k v), buf @ snd (WriteField w [] k v))"
  by (simp add: WriteField_def CreateFormField_def CreatePart_def)

lemma writeFields_append:
  "writeFields w buf fd = (fst (writeFields w [] fd), buf @ snd (writeFields w [] fd))"
proof (induction fd arbitrary: w buf)
  case Nil
  then show ?case by simp
next
  case (Cons x fd)
  obtain k v where x: "x = (k, v)" by (cases x)
  obtain w' part where p: "WriteField w [] k v = (w', part)" by force
  have q: "WriteField w buf k v = (w', buf @ part)"
    using WriteField_append[of w buf k v] by (simp add: p)
  show ?case
    using Cons.IH[of w' "buf @ part"] Cons.IH[of w' part]
    by (simp add: x p q)
qed

lemma WriteField_nonempty: "snd (WriteField w [] k v) \<noteq> []"
  by (simp add: WriteField_def CreateFormField_def CreatePart_def CRLF_def)

lemma fieldParts_nonempty:
  assumes "fd \<noteq> []"
  shows "fieldParts w fd \<noteq> []"
proof -
  from assms obtain k v rest where fd: "fd = (k, v) # rest"
    by (cases fd) auto
  obtain w' part where p: "WriteField w [] k v = (w', part)" by force
  with WriteField_nonempty[of w k v] have "part \<noteq> []" by simp
  then show ?thesis
    using writeFields_append[of w' part rest] by (simp add: fieldParts_def fd p)
qed

text \<open>
  C9, as stated, fails: \<open>MultipartFormData\<close> leaves the content type as it is, which is
  not always empty.  After \<open>Query\<close>, with no upload and no body encoder, the request a
  \<open>Post\<close> sends has an empty body and the content type \<open>Query\<close> set.
\<close>

theorem MultipartFormData_content_type_counterexample:
  "formVals (MultipartFormData demoEnv (Query (NewRequest []) [(''a'', ''1'')]) [(''k'', ''v'')]) =
     NilBuffer \<and>
   map (\<lambda>rq. (ReqBody rq, Header rq ''Content-Type''))
     (sentRequests (trace
        (Post demoEnv (MultipartFormData demoEnv (Query (NewRequest []) [(''a'', ''1'')]) [(''k'', ''v'')])
           ''http://example.com/''))) =
     [(Some [], Some [''application/x-www-form-urlencoded''])]"
  by code_simp

text \<open>
  C9, amended.  On a builder whose body buffer is nil, \<open>MultipartFormData\<close> with a
  non-empty map appends the field parts to the multipart buffer and leaves the body
  buffer nil and the content type as it was.  Every verb method but \<open>Get\<close> then hands the
  platform an empty body and the request it sends has an empty body: the parts written
  are not sent.  The \<open>Content-Type\<close> header of that request is the content type of the
  builder as the request is built, when no key of the header map stands for
  \<open>Content-Type\<close>; with no before-request hook that is the content type and the header
  map the builder had before the call.
\<close>

theorem MultipartFormData_alone_sends_no_parts:
  assumes "formVals req = NilBuffer" and "formData \<noteq> []" and "verb \<in> set otherVerbs"
  shows "formVals (MultipartFormData E req formData) = NilBuffer \<and>
    contentType (MultipartFormData E req formData) = contentType req \<and>
    multipartBuffer (MultipartFormData E req formData) =
      multipartBuffer req @ fieldParts (getWriter E req) formData \<and>
    fieldParts (getWriter E req) formData \<noteq> [] \<and>
    map (snd \<circ> snd) (newRequestCalls (trace (verb E (MultipartFormData E req formData) url))) =
      [Some []] \<and>
    list_all (\<lambda>rq. ReqBody rq = Some [])
      (sentRequests (trace (verb E (MultipartFormData E req formData) url))) \<and>
    ((\<forall>(k, v) \<in> set (headers (atDispatch E (MultipartFormData E req formData))).
         CanonicalMIMEHeaderKey k \<noteq> ''Content-Type'') \<longrightarrow>
       list_all (\<lambda>rq. Header rq ''Content-Type'' =
                        Some [contentType (atDispatch E (MultipartFormData E req formData))])
         (sentRequests (trace (verb E (MultipartFormData E req formData) url)))) \<and>
    (beforeRequestHooks req = [] \<longrightarrow>
       contentType (atDispatch E (MultipartFormData E req formData)) = contentType req \<and>
       headers (atDispatch E (MultipartFormData E req formData)) = headers req)"
proof -
  let ?r = "MultipartFormData E req formData"
  have f: "formVals ?r = NilBuffer" and c: "contentType ?r = contentType req"
    by (simp_all add: MultipartFormData_fields assms)
  have m: "multipartBuffer ?r = multipartBuffer req @ fieldParts (getWriter E req) formData"
    using writeFields_append[of "getWriter E req" "multipartBuffer req" formData]
    by (simp add: MultipartFormData_fields fieldParts_def)
  have p: "configuredPayload E ?r = []"
    by (simp add: configuredPayload_def f)
  from otherVerbs_cases[OF assms(3)] obtain v
    where v: "v \<in> {''POST'', ''PUT'', ''PATCH'', ''DELETE'', ''HEAD'', ''OPTIONS''}"
      and vf: "verb = (\<lambda>E req url. makeRequest E req v url (formVals req))"
    by blast
  have b: "dispatchBody E ?r v (formVals ?r) = Some []"
    using dispatchBody_other[OF v, of E ?r] by (simp add: p)
  have n: "map (snd \<circ> snd) (newRequestCalls (trace (verb E ?r url))) = [Some []]"
    by (simp add: vf makeRequest_newRequestCalls b)
  have s: "list_all (\<lambda>rq. ReqBody rq = Some []) (sentRequests (trace (verb E ?r url)))"
    unfolding list_all_iff vf
    using sentRequests_fields(1)[of _ E ?r v url "formVals ?r"]
    by (simp add: b)
  have t: "list_all (\<lambda>rq. Header rq ''Content-Type'' = Some [contentType (atDispatch E ?r)])
         (sentRequests (trace (verb E ?r url)))"
    if dh: "\<forall>(k, v) \<in> set (headers (atDispatch E ?r)). CanonicalMIMEHeaderKey k \<noteq> ''Content-Type''"
    unfolding list_all_iff vf
    using sentRequests_Content_Type[OF dh, of _ v url "formVals ?r"] by simp
  have h: "contentType (atDispatch E ?r) = contentType req \<and> headers (atDispatch E ?r) = headers req"
    if "beforeRequestHooks req = []"
  proof -
    have "atDispatch E ?r = closeWriter (snd (createClient ?r))"
      by (rule atDispatch_no_hooks) (simp add: MultipartFormData_fields that)
    then show ?thesis
      by (simp add: closeWriter_fields createClient_fields MultipartFormData_fields)
  qed
  from t have t': "(\<forall>(k, v) \<in> set (headers (atDispatch E ?r)).
         CanonicalMIMEHeaderKey k \<noteq> ''Content-Type'') \<longrightarrow>
       list_all (\<lambda>rq. Header rq ''Content-Type'' = Some [contentType (atDispatch E ?r)])
         (sentRequests (trace (verb E ?r url)))"
    by (rule impI)
  from h have h': "beforeRequestHooks req = [] \<longrightarrow>
       contentType (atDispatch E ?r) = contentType req \<and> headers (atDispatch E ?r) = headers req"
    by (rule impI)
  from f c m fieldParts_nonempty[OF assms(2), of "getWriter E req"] n s t' h' show ?thesis
    by (intro conjI)
qed

theorem MultipartFormData_alone_sends_no_parts_witness:
  "formVals (MultipartFormData demoEnv (NewRequest []) [(''k'', ''v'')]) = NilBuffer \<and>
   contentType (MultipartFormData demoEnv (NewRequest []) [(''k'', ''v'')]) = [] \<and>
   multipartBuffer (MultipartFormData demoEnv (NewRequest []) [(''k'', ''v'')]) =
     ''--BOUNDARY'' @ CRLF @ ''Content-Disposition: form-data; name='' @ [CHR 0x22] @ ''k''
       @ [CHR 0x22] @ CRLF @ CRLF @ ''v'' \<and>
   map (snd \<circ> snd) (newRequestCalls (trace
     (Post demoEnv (MultipartFormData demoEnv (NewRequest []) [(''k'', ''v'')])
        ''http://example.com/''))) = [Some []] \<and>
   map (\<lambda>rq. (ReqBody rq, Header rq ''Content-Type'')) (sentRequests (trace
     (Post demoEnv (MultipartFormData demoEnv (NewRequest []) [(''k'', ''v'')])
        ''http://example.com/''))) = [(Some [], Some [[]])]"
proof -
  define r where "r = MultipartFormData demoEnv (NewRequest []) [(''k'', ''v'')]"
  have a: "formVals (NewRequest []) = NilBuffer"
    by (simp add: NewRequest_def zeroRequest_def)
  have z: "contentType (NewRequest []) = []" "headers (NewRequest []) = []"
    "beforeRequestHooks (NewRequest []) = []"
    by (simp_all add: NewRequest_def zeroRequest_def)
  have b: "[(''k'', ''v'')] \<noteq> []" by simp
  have c: "Post \<in> set otherVerbs" by (simp add: otherVerbs_def)
  note t = MultipartFormData_alone_sends_no_parts[OF a b c, of demoEnv "''http://example.com/''",
      folded r_def]
  from t z have d: "contentType (atDispatch demoEnv r) = []" "headers (atDispatch demoEnv r) = []"
    by simp_all
  from t d have s: "list_all (\<lambda>rq. ReqBody rq = Some [] \<and> Header rq ''Content-Type'' = Some [[]])
      (sentRequests (trace (Post demoEnv r ''http://example.com/'')))"
    by (simp add: list_all_iff)
  have l: "length (sentRequests (trace (Post demoEnv r ''http://example.com/''))) = 1"
    unfolding r_def by code_simp
  from s l have 5: "map (\<lambda>rq. (ReqBody rq, Header rq ''Content-Type''))
      (sentRequests (trace (Post demoEnv r ''http://example.com/''))) = [(Some [], Some [[]])]"
    by (cases "sentRequests (trace (Post demoEnv r ''http://example.com/''))") simp_all
  have 3: "multipartBuffer (NewRequest []) @ fieldParts (getWriter demoEnv (NewRequest [])) [(''k'', ''v'')] =
     ''--BOUNDARY'' @ CRLF @ ''Content-Disposition: form-data; name='' @ [CHR 0x22] @ ''k''
       @ [CHR 0x22] @ CRLF @ CRLF @ ''v''"
    by code_simp
  from t z 3 5 show ?thesis
    unfolding r_def by simp
qed

subsection \<open>The order of the parts\<close>

lemma escapeQuotes_Cons:
  "escapeQuotes (c # cs) =
     (if c = CHR 0x5C then [CHR 0x5C, CHR 0x5C]
      else if c = CHR 0x22 then [CHR 0x5C, CHR 0x22]
      else if c = CHR 0x0D then ''%0D''
      else if c = CHR 0x0A then ''%0A'' else [c]) @ escapeQuotes cs"
  by (simp add: escapeQuotes_def)

lemma escapeQuotes_Nil: "escapeQuotes [] = []"
  by (simp add: escapeQuotes_def)

lemma quotedPrefix_plain:
  "c \<noteq> CHR 0x22 \<Longrightarrow> c \<noteq> CHR 0x5C \<Longrightarrow> R \<noteq> [] \<Longrightarrow> quotedPrefix (c # R) = c # quotedPrefix R"
  by (cases R) simp_all

lemma quotedPrefix_escapeQuotes:
  "quotedPrefix (escapeQuotes k @ CHR 0x22 # x) = escapeQuotes k"
proof (induction k)
  case Nil
  then show ?case by (cases x) (simp_all add: escapeQuotes_Nil)
next
  case (Cons c k)
  have ne: "escapeQuotes k @ CHR 0x22 # x \<noteq> []" by simp
  show ?case
    using Cons.IH
    by (simp add: escapeQuotes_Cons quotedPrefix_plain[OF _ _ ne] del: quotedPrefix.simps(3))
      (simp add: quotedPrefix_plain)
qed

lemma escapeQuotes_closing_quote:
  assumes "escapeQuotes k1 @ CHR 0x22 # x = escapeQuotes k2 @ CHR 0x22 # y"
  shows "escapeQuotes k1 = escapeQuotes k2"
proof -
  from assms have "quotedPrefix (escapeQuotes k1 @ CHR 0x22 # x) =
      quotedPrefix (escapeQuotes k2 @ CHR 0x22 # y)"
    by simp
  then show ?thesis by (simp only: quotedPrefix_escapeQuotes)
qed

lemma WriteField_eq:
  "WriteField w buf k v =
     (w\<lparr>lastpart := True\<rparr>,
      buf @ (if lastpart w then CRLF @ ''--'' @ boundary w @ CRLF else ''--'' @ boundary w @ CRLF)
          @ ''Content-Disposition: form-data; name='' @ [CHR 0x22] @ escapeQuotes k
          @ CHR 0x22 # CRLF @ CRLF @ v)"
  by (simp add: WriteField_def CreateFormField_def CreatePart_def)

lemma writeFields_two_orders:
  assumes "escapeQuotes k1 \<noteq> escapeQuotes k2"
  shows "snd (writeFields w buf [(k1, v1), (k2, v2)]) \<noteq> snd (writeFields w buf [(k2, v2), (k1, v1)])"
proof
  assume "snd (writeFields w buf [(k1, v1), (k2, v2)]) = snd (writeFields w buf [(k2, v2), (k1, v1)])"
  then have "escapeQuotes k1 @ CHR 0x22 # (CRLF @ CRLF @ v1 @ CRLF @ ''--'' @ boundary w @ CRLF
        @ ''Content-Disposition: form-data; name='' @ [CHR 0x22] @ escapeQuotes k2
        @ CHR 0x22 # CRLF @ CRLF @ v2) =
      escapeQuotes k2 @ CHR 0x22 # (CRLF @ CRLF @ v2 @ CRLF @ ''--'' @ boundary w @ CRLF
        @ ''Content-Disposition: form-data; name='' @ [CHR 0x22] @ escapeQuotes k1
        @ CHR 0x22 # CRLF @ CRLF @ v1)"
    by (simp add: WriteField_eq)
  then have "escapeQuotes k1 = escapeQuotes k2" by (rule escapeQuotes_closing_quote)
  with assms show False by simp
qed

lemma writeFields_app:
  "writeFields w buf (xs @ ys) =
     writeFields (fst (writeFields w buf xs)) (snd (writeFields w buf xs)) ys"
proof (induction xs arbitrary: w buf)
  case Nil
  then show ?case by simp
next
  case (Cons x xs)
  obtain k v where x: "x = (k, v)" by (cases x)
  obtain w' buf' where p: "WriteField w buf k v = (w', buf')" by force
  show ?case by (simp add: x p Cons.IH)
qed

lemma part_header_order: "''Content-Disposition'' \<le> ''Content-Type''"
  by code_simp

lemma CreateFormFile_eq:
  "CreateFormFile w buf name file =
     (w\<lparr>lastpart := True\<rparr>,
      buf @ (if lastpart w then CRLF @ ''--'' @ boundary w @ CRLF else ''--'' @ boundary w @ CRLF)
          @ ''Content-Disposition: form-data; name='' @ [CHR 0x22] @ escapeQuotes name
          @ CHR 0x22 # (''; filename='' @ [CHR 0x22] @ escapeQuotes file @ [CHR 0x22] @ CRLF
          @ ''Content-Type: application/octet-stream'' @ CRLF @ CRLF))"
  using part_header_order by (simp add: CreateFormFile_def CreatePart_def)

lemma Upload_eq:
  assumes "os_Open E file = Inr (Inr content)"
  shows "Upload E req name file =
     Inr (req\<lparr>writer := Some ((getWriter E req)\<lparr>lastpart := True\<rparr>),
              multipartBuffer := multipartBuffer req
                @ (if lastpart (getWriter E req) then CRLF @ ''--'' @ boundary (getWriter E req) @ CRLF
                   else ''--'' @ boundary (getWriter E req) @ CRLF)
                @ ''Content-Disposition: form-data; name='' @ [CHR 0x22] @ escapeQuotes name
                @ CHR 0x22 # (''; filename='' @ [CHR 0x22] @ escapeQuotes file @ [CHR 0x22] @ CRLF
                @ ''Content-Type: application/octet-stream'' @ CRLF @ CRLF @ content),
              contentType := FormDataContentType ((getWriter E req)\<lparr>lastpart := True\<rparr>),
              formVals := MultipartBufferPtr\<rparr>)"
  by (simp add: Upload_def UploadFromReader_def assms CreateFormFile_eq)

lemma Upload_opens:
  assumes "Upload E req name file = Inr r"
  shows "\<exists>content. os_Open E file = Inr (Inr content)"
  using assms
  by (auto simp: Upload_def UploadFromReader_def case_prod_unfold split: sum.splits)

lemma Uploads_app:
  "Uploads E req (xs @ ys) =
     (case Uploads E req xs of Inl err \<Rightarrow> Inl err | Inr r \<Rightarrow> Uploads E r ys)"
proof (induction xs arbitrary: req)
  case Nil
  then show ?case by simp
next
  case (Cons x xs)
  obtain name fl where x: "x = (name, fl)" by (cases x)
  show ?case by (simp add: x Cons.IH split: sum.splits)
qed

lemma Uploads_two_orders:
  assumes "escapeQuotes k1 \<noteq> escapeQuotes k2"
    and o1: "os_Open E f1 = Inr (Inr c1)" and o2: "os_Open E f2 = Inr (Inr c2)"
  shows "\<exists>r r'. Uploads E req [(k1, f1), (k2, f2)] = Inr r \<and>
           Uploads E req [(k2, f2), (k1, f1)] = Inr r' \<and> multipartBuffer r' \<noteq> multipartBuffer r"
proof -
  define w where "w = getWriter E req"
  obtain r1 where u1: "Upload E req k1 f1 = Inr r1"
    by (simp add: Upload_eq[OF o1])
  obtain r where u2: "Upload E r1 k2 f2 = Inr r"
    by (simp add: Upload_eq[OF o2])
  obtain r1' where v1: "Upload E req k2 f2 = Inr r1'"
    and w1': "getWriter E r1' = w\<lparr>lastpart := True\<rparr>"
    and b1': "multipartBuffer r1' = multipartBuffer req
                @ (if lastpart w then CRLF @ ''--'' @ boundary w @ CRLF
                   else ''--'' @ boundary w @ CRLF)
                @ ''Content-Disposition: form-data; name='' @ [CHR 0x22] @ escapeQuotes k2
                @ CHR 0x22 # (''; filename='' @ [CHR 0x22] @ escapeQuotes f2 @ [CHR 0x22] @ CRLF
                @ ''Content-Type: application/octet-stream'' @ CRLF @ CRLF @ c2)"
    by (simp add: Upload_eq[OF o2] getWriter_def w_def)
  obtain r' where v2: "Upload E r1' k1 f1 = Inr r'"
    and b': "multipartBuffer r' = multipartBuffer r1'
                @ CRLF @ ''--'' @ boundary w @ CRLF
                @ ''Content-Disposition: form-data; name='' @ [CHR 0x22] @ escapeQuotes k1
                @ CHR 0x22 # (''; filename='' @ [CHR 0x22] @ escapeQuotes f1 @ [CHR 0x22] @ CRLF
                @ ''Content-Type: application/octet-stream'' @ CRLF @ CRLF @ c1)"
    by (simp add: Upload_eq[OF o1] w1')
  have w1: "getWriter E r1 = w\<lparr>lastpart := True\<rparr>"
    and b1: "multipartBuffer r1 = multipartBuffer req
                @ (if lastpart w then CRLF @ ''--'' @ boundary w @ CRLF
                   else ''--'' @ boundary w @ CRLF)
                @ ''Content-Disposition: form-data; name='' @ [CHR 0x22] @ escapeQuotes k1
                @ CHR 0x22 # (''; filename='' @ [CHR 0x22] @ escapeQuotes f1 @ [CHR 0x22] @ CRLF
                @ ''Content-Type: application/octet-stream'' @ CRLF @ CRLF @ c1)"
    using u1 by (auto simp: Upload_eq[OF o1] getWriter_def w_def)
  have b: "multipartBuffer r = multipartBuffer r1
                @ CRLF @ ''--'' @ boundary w @ CRLF
                @ ''Content-Disposition: form-data; name='' @ [CHR 0x22] @ escapeQuotes k2
                @ CHR 0x22 # (''; filename='' @ [CHR 0x22] @ escapeQuotes f2 @ [CHR 0x22] @ CRLF
                @ ''Content-Type: application/octet-stream'' @ CRLF @ CRLF @ c2)"
    using u2 by (auto simp: Upload_eq[OF o2] w1)
  have "multipartBuffer r' \<noteq> multipartBuffer r"
  proof
    assume "multipartBuffer r' = multipartBuffer r"
    then have "escapeQuotes k2
                @ CHR 0x22 # (''; filename='' @ [CHR 0x22] @ escapeQuotes f2 @ [CHR 0x22] @ CRLF
                @ ''Content-Type: application/octet-stream'' @ CRLF @ CRLF @ c2
                @ CRLF @ ''--'' @ boundary w @ CRLF
                @ ''Content-Disposition: form-data; name='' @ [CHR 0x22] @ escapeQuotes k1
                @ CHR 0x22 # (''; filename='' @ [CHR 0x22] @ escapeQuotes f1 @ [CHR 0x22] @ CRLF
                @ ''Content-Type: application/octet-stream'' @ CRLF @ CRLF @ c1)) =
       escapeQuotes k1
                @ CHR 0x22 # (''; filename='' @ [CHR 0x22] @ escapeQuotes f1 @ [CHR 0x22] @ CRLF
                @ ''Content-Type: application/octet-stream'' @ CRLF @ CRLF @ c1
                @ CRLF @ ''--'' @ boundary w @ CRLF
                @ ''Content-Disposition: form-data; name='' @ [CHR 0x22] @ escapeQuotes k2
                @ CHR 0x22 # (''; filename='' @ [CHR 0x22] @ escapeQuotes f2 @ [CHR 0x22] @ CRLF
                @ ''Content-Type: application/octet-stream'' @ CRLF @ CRLF @ c2))"
      unfolding b' b b1' b1 by simp
    then have "escapeQuotes k2 = escapeQuotes k1" by (rule escapeQuotes_closing_quote)
    with assms(1) show False by simp
  qed
  with u1 u2 v1 v2 show ?thesis by simp
qed

lemma same_map_small:
  assumes "same_map m m'" and "length m \<le> 1"
  shows "m' = m"
proof (cases m)
  case Nil
  with assms show ?thesis by (simp add: same_map_def)
next
  case (Cons x xs)
  with assms(2) have m: "m = [x]" by simp
  with assms(1) have s: "set m' = {x}" and d: "distinct m'"
    by (auto simp: same_map_def distinct_map)
  have "m' = [x]"
  proof (cases m')
    case Nil
    with s show ?thesis by simp
  next
    case (Cons a as)
    with s d have "a = x" and "set as \<subseteq> {x}" and "a \<notin> set as"
      by auto
    then have "as = []"
      by (cases as) auto
    with \<open>a = x\<close> Cons show ?thesis by simp
  qed
  with m show ?thesis by simp
qed



lemma two_enumerations:
  assumes "distinct (map fst m)" and "(k1, v1) \<in> set m" and "(k2, v2) \<in> set m" and "k1 \<noteq> k2"
  shows "\<exists>rest. same_map m (rest @ [(k1, v1), (k2, v2)]) \<and> same_map m (rest @ [(k2, v2), (k1, v1)])"
proof -
  define rest where "rest = filter (\<lambda>p. fst p \<noteq> k1 \<and> fst p \<noteq> k2) m"
  have d: "distinct (map fst rest)"
    unfolding rest_def using assms(1) by (rule distinct_map_filter)
  have k: "k1 \<notin> fst ` set rest" "k2 \<notin> fst ` set rest"
    by (auto simp: rest_def)
  have sub: "set rest \<subseteq> set m"
    by (auto simp: rest_def)
  have "p \<in> set rest \<union> {(k1, v1), (k2, v2)}" if p: "p \<in> set m" for p
  proof -
    obtain a b where ab: "p = (a, b)" by (cases p)
    show ?thesis
    proof (cases "a = k1")
      case True
      with p ab have "(k1, b) \<in> set m" by simp
      from eq_key_imp_eq_value[OF assms(1) this assms(2)] True ab show ?thesis by simp
    next
      case False
      show ?thesis
      proof (cases "a = k2")
        case True
        with p ab have "(k2, b) \<in> set m" by simp
        from eq_key_imp_eq_value[OF assms(1) this assms(3)] True ab show ?thesis by simp
      next
        case nk2: False
        with False p ab show ?thesis by (simp add: rest_def)
      qed
    qed
  qed
  with sub assms(2,3) have s: "set m = set rest \<union> {(k1, v1), (k2, v2)}"
    by blast
  have d1: "distinct (map fst (rest @ [(k1, v1), (k2, v2)]))"
    and d2: "distinct (map fst (rest @ [(k2, v2), (k1, v1)]))"
    using d k assms(4) by auto
  have "set (rest @ [(k1, v1), (k2, v2)]) = set m" and "set (rest @ [(k2, v2), (k1, v1)]) = set m"
    unfolding s by auto
  with d1 d2 assms(1) have "same_map m (rest @ [(k1, v1), (k2, v2)])"
    and "same_map m (rest @ [(k2, v2), (k1, v1)])"
    unfolding same_map_def by simp_all
  then show ?thesis by (intro exI[of _ rest] conjI)
qed

lemma MultipartFormData_order:
  assumes "distinct (map fst m)" and "(k1, v1) \<in> set m" and "(k2, v2) \<in> set m"
    and "escapeQuotes k1 \<noteq> escapeQuotes k2"
  shows "\<exists>m1 m2. same_map m m1 \<and> same_map m m2 \<and>
           multipartBuffer (MultipartFormData E req m1) \<noteq> multipartBuffer (MultipartFormData E req m2)"
proof -
  from assms(4) have "k1 \<noteq> k2" by auto
  from two_enumerations[OF assms(1-3) this] obtain rest
    where s1: "same_map m (rest @ [(k1, v1), (k2, v2)])"
      and s2: "same_map m (rest @ [(k2, v2), (k1, v1)])"
    by (elim exE conjE)
  have "multipartBuffer (MultipartFormData E req (rest @ [(k1, v1), (k2, v2)])) \<noteq>
      multipartBuffer (MultipartFormData E req (rest @ [(k2, v2), (k1, v1)]))"
    using writeFields_two_orders[OF assms(4), of _ _ v1 v2]
    by (simp add: MultipartFormData_fields writeFields_app del: writeFields.simps)
  with s1 s2 show ?thesis
    by (intro exI[of _ "rest @ [(k1, v1), (k2, v2)]"] exI[of _ "rest @ [(k2, v2), (k1, v1)]"] conjI)
qed

lemma Uploads_succeeds:
  assumes "\<And>n f. (n, f) \<in> set fs \<Longrightarrow> \<exists>c. os_Open E f = Inr (Inr c)"
  shows "\<exists>r. Uploads E req fs = Inr r"
  using assms
proof (induction fs arbitrary: req)
  case Nil
  then show ?case by simp
next
  case (Cons x fs)
  obtain n f where x: "x = (n, f)" by (cases x)
  have "(n, f) \<in> set (x # fs)" by (simp add: x)
  from Cons.prems[OF this] obtain c where "os_Open E f = Inr (Inr c)" by (rule exE)
  then obtain r1 where u: "Upload E req n f = Inr r1"
    by (simp add: Upload_eq)
  have "\<exists>r. Uploads E r1 fs = Inr r"
  proof (rule Cons.IH)
    fix n f assume "(n, f) \<in> set fs"
    then have "(n, f) \<in> set (x # fs)" by simp
    then show "\<exists>c. os_Open E f = Inr (Inr c)" by (rule Cons.prems)
  qed
  then obtain r where "Uploads E r1 fs = Inr r" by (rule exE)
  with u show ?case by (simp add: x)
qed

lemma Uploads_opens:
  assumes "Uploads E req fs = Inr r" and "(n, f) \<in> set fs"
  shows "\<exists>c. os_Open E f = Inr (Inr c)"
  using assms
proof (induction fs arbitrary: req)
  case Nil
  then show ?case by simp
next
  case (Cons x fs)
  obtain n' f' where x: "x = (n', f')" by (cases x)
  from Cons.prems(1) obtain r1 where u: "Upload E req n' f' = Inr r1" and v: "Uploads E r1 fs = Inr r"
    by (cases "Upload E req n' f'") (simp_all add: x)
  show ?case
  proof (cases "(n, f) = x")
    case True
    with Upload_opens[OF u] x show ?thesis by simp
  next
    case False
    with Cons.prems(2) have "(n, f) \<in> set fs" by simp
    from Cons.IH[OF v this] show ?thesis .
  qed
qed

lemma Uploads_order:
  assumes "distinct (map fst m)" and "(k1, f1) \<in> set m" and "(k2, f2) \<in> set m"
    and "escapeQuotes k1 \<noteq> escapeQuotes k2" and "Uploads E req m = Inr r"
  shows "\<exists>m1 m2 r1 r2. same_map m m1 \<and> same_map m m2 \<and> Uploads E req m1 = Inr r1 \<and>
           Uploads E req m2 = Inr r2 \<and> multipartBuffer r1 \<noteq> multipartBuffer r2"
proof -
  from assms(4) have "k1 \<noteq> k2" by auto
  from two_enumerations[OF assms(1-3) this] obtain rest
    where s1: "same_map m (rest @ [(k1, f1), (k2, f2)])"
      and s2: "same_map m (rest @ [(k2, f2), (k1, f1)])"
    by (elim exE conjE)
  from Uploads_opens[OF assms(5) assms(2)] obtain c1 where o1: "os_Open E f1 = Inr (Inr c1)"
    by (rule exE)
  from Uploads_opens[OF assms(5) assms(3)] obtain c2 where o2: "os_Open E f2 = Inr (Inr c2)"
    by (rule exE)
  from s1 have sub: "set rest \<subseteq> set m" by (auto simp: same_map_def)
  have "\<exists>r0. Uploads E req rest = Inr r0"
  proof (rule Uploads_succeeds)
    fix n f assume "(n, f) \<in> set rest"
    with sub have "(n, f) \<in> set m" by auto
    from Uploads_opens[OF assms(5) this] show "\<exists>c. os_Open E f = Inr (Inr c)" .
  qed
  then obtain r0 where p: "Uploads E req rest = Inr r0" by (rule exE)
  from Uploads_two_orders[OF assms(4) o1 o2, of r0] obtain r1 r2
    where "Uploads E r0 [(k1, f1), (k2, f2)] = Inr r1"
      and "Uploads E r0 [(k2, f2), (k1, f1)] = Inr r2"
      and d: "multipartBuffer r2 \<noteq> multipartBuffer r1"
    by (elim exE conjE)
  then have "Uploads E req (rest @ [(k1, f1), (k2, f2)]) = Inr r1"
    and "Uploads E req (rest @ [(k2, f2), (k1, f1)]) = Inr r2"
    unfolding Uploads_app by (simp_all add: p)
  with s1 s2 d[symmetric] show ?thesis
    by (intro exI[of _ "rest @ [(k1, f1), (k2, f2)]"] exI[of _ "rest @ [(k2, f2), (k1, f1)]"]
        exI[of _ r1] exI[of _ r2] conjI) simp_all
qed

lemma boundary_shows:
  assumes "writer req = None" and "randomBoundary E \<noteq> randomBoundary E'"
  shows "multipartBuffer (MultipartFormData E req [(k, v)]) \<noteq>
         multipartBuffer (MultipartFormData E' req [(k, v)])"
  using assms
  by (simp add: MultipartFormData_fields WriteField_eq getWriter_def NewWriter_def)


text \<open>
  C10, as stated, fails: the order of the parts can be without effect on a map with two
  entries.  The names \<open>a\<close> followed by a line feed and \<open>a%0A\<close> have one escaped form, so
  with equal values (or one file) the two enumerations of that map leave the same
  builder.
\<close>

theorem multipart_order_counterexample:
  "same_map [(''a'' @ [CHR 0x0A], ''v''), (''a%0A'', ''v'')]
            [(''a%0A'', ''v''), (''a'' @ [CHR 0x0A], ''v'')] \<and>
   length [(''a'' @ [CHR 0x0A], ''v''), (''a%0A'', ''v'')] = 2 \<and>
   MultipartFormData demoEnv (NewRequest []) [(''a'' @ [CHR 0x0A], ''v''), (''a%0A'', ''v'')] =
     MultipartFormData demoEnv (NewRequest []) [(''a%0A'', ''v''), (''a'' @ [CHR 0x0A], ''v'')] \<and>
   \<not> isl (Uploads demoEnv (NewRequest []) [(''a'' @ [CHR 0x0A], ''a.txt''), (''a%0A'', ''a.txt'')]) \<and>
   Uploads demoEnv (NewRequest []) [(''a'' @ [CHR 0x0A], ''a.txt''), (''a%0A'', ''a.txt'')] =
     Uploads demoEnv (NewRequest []) [(''a%0A'', ''a.txt''), (''a'' @ [CHR 0x0A], ''a.txt'')]"
  unfolding same_map_def by code_simp

text \<open>
  C10, amended.  \<open>MultipartFormData\<close> and \<open>Uploads\<close> append one part per entry in the
  order in which the map is enumerated.  For every map that holds two entries whose
  names differ after the writer's escaping there are two enumerations of the map that
  leave different bytes in the multipart buffer (for \<open>Uploads\<close>: when the files can be
  read): the body is not a function of the map.  A map with at most one entry has one
  enumeration.  All this is with one boundary: when the call creates the writer, the
  bytes a one-entry map leaves change with the boundary drawn.
\<close>

theorem multipart_body_depends_on_map_enumeration:
  "(distinct (map fst m) \<and> (k1, v1) \<in> set m \<and> (k2, v2) \<in> set m \<and>
    escapeQuotes k1 \<noteq> escapeQuotes k2 \<longrightarrow>
      (\<exists>m1 m2. same_map m m1 \<and> same_map m m2 \<and>
         multipartBuffer (MultipartFormData E req m1) \<noteq> multipartBuffer (MultipartFormData E req m2))) \<and>
   (distinct (map fst m) \<and> (k1, v1) \<in> set m \<and> (k2, v2) \<in> set m \<and>
    escapeQuotes k1 \<noteq> escapeQuotes k2 \<and> Uploads E req m = Inr r \<longrightarrow>
      (\<exists>m1 m2 r1 r2. same_map m m1 \<and> same_map m m2 \<and> Uploads E req m1 = Inr r1 \<and>
         Uploads E req m2 = Inr r2 \<and> multipartBuffer r1 \<noteq> multipartBuffer r2)) \<and>
   (same_map m m' \<and> length m \<le> 1 \<longrightarrow> m' = m) \<and>
   (writer req = None \<and> randomBoundary E \<noteq> randomBoundary E' \<longrightarrow>
      multipartBuffer (MultipartFormData E req [(k1, v1)]) \<noteq>
      multipartBuffer (MultipartFormData E' req [(k1, v1)]))"
proof (intro conjI impI)
  assume a: "distinct (map fst m) \<and> (k1, v1) \<in> set m \<and> (k2, v2) \<in> set m \<and>
    escapeQuotes k1 \<noteq> escapeQuotes k2"
  show "\<exists>m1 m2. same_map m m1 \<and> same_map m m2 \<and>
         multipartBuffer (MultipartFormData E req m1) \<noteq> multipartBuffer (MultipartFormData E req m2)"
    by (rule MultipartFormData_order[where ?k1.0 = k1 and ?v1.0 = v1 and ?k2.0 = k2 and ?v2.0 = v2])
      (simp_all add: a)
next
  assume a: "distinct (map fst m) \<and> (k1, v1) \<in> set m \<and> (k2, v2) \<in> set m \<and>
    escapeQuotes k1 \<noteq> escapeQuotes k2 \<and> Uploads E req m = Inr r"
  show "\<exists>m1 m2 r1 r2. same_map m m1 \<and> same_map m m2 \<and> Uploads E req m1 = Inr r1 \<and>
         Uploads E req m2 = Inr r2 \<and> multipartBuffer r1 \<noteq> multipartBuffer r2"
    by (rule Uploads_order[where r = r and ?k1.0 = k1 and ?f1.0 = v1 and ?k2.0 = k2 and ?f2.0 = v2])
      (simp_all add: a)
next
  assume "same_map m m' \<and> length m \<le> 1"
  then show "m' = m" using same_map_small by blast
next
  assume "writer req = None \<and> randomBoundary E \<noteq> randomBoundary E'"
  then show "multipartBuffer (MultipartFormData E req [(k1, v1)]) \<noteq>
      multipartBuffer (MultipartFormData E' req [(k1, v1)])"
    using boundary_shows by blast
qed

theorem multipart_body_depends_on_map_enumeration_witness:
  "(\<exists>m1 m2. same_map [(''a'', ''a.txt''), (''b'', ''b.txt'')] m1 \<and>
      same_map [(''a'', ''a.txt''), (''b'', ''b.txt'')] m2 \<and>
      multipartBuffer (MultipartFormData demoEnv (NewRequest []) m1) \<noteq>
      multipartBuffer (MultipartFormData demoEnv (NewRequest []) m2)) \<and>
   (\<exists>m1 m2 r1 r2. same_map [(''a'', ''a.txt''), (''b'', ''b.txt'')] m1 \<and>
      same_map [(''a'', ''a.txt''), (''b'', ''b.txt'')] m2 \<and>
      Uploads demoEnv (NewRequest []) m1 = Inr r1 \<and> Uploads demoEnv (NewRequest []) m2 = Inr r2 \<and>
      multipartBuffer r1 \<noteq> multipartBuffer r2) \<and>
   multipartBuffer (MultipartFormData demoEnv (NewRequest []) [(''a'', ''a.txt'')]) \<noteq>
   multipartBuffer (MultipartFormData (demoEnv\<lparr>randomBoundary := ''OTHER''\<rparr>) (NewRequest [])
      [(''a'', ''a.txt'')]) \<and>
   multipartBuffer (MultipartFormData demoEnv (NewRequest []) [(''b'', ''b.txt''), (''a'', ''a.txt'')]) \<noteq>
   multipartBuffer (MultipartFormData demoEnv (NewRequest []) [(''a'', ''a.txt''), (''b'', ''b.txt'')])"
proof -
  define m where "m = [(''a'', ''a.txt''), (''b'', ''b.txt'')]"
  have d: "distinct (map fst m) \<and> (''a'', ''a.txt'') \<in> set m \<and> (''b'', ''b.txt'') \<in> set m \<and>
      escapeQuotes ''a'' \<noteq> escapeQuotes ''b''"
    by (simp add: m_def escapeQuotes_def)
  have "\<not> isl (Uploads demoEnv (NewRequest []) m)"
    unfolding m_def by code_simp
  then obtain r where u: "Uploads demoEnv (NewRequest []) m = Inr r"
    by (cases "Uploads demoEnv (NewRequest []) m") auto
  have w: "writer (NewRequest []) = None \<and>
      randomBoundary demoEnv \<noteq> randomBoundary (demoEnv\<lparr>randomBoundary := ''OTHER''\<rparr>)"
    by (simp add: NewRequest_def zeroRequest_def demoEnv_def)
  note t = multipart_body_depends_on_map_enumeration
      [of m "''a''" "''a.txt''" "''b''" "''b.txt''" demoEnv "NewRequest []" r m
          "demoEnv\<lparr>randomBoundary := ''OTHER''\<rparr>"]
  from t d have 1: "\<exists>m1 m2. same_map m m1 \<and> same_map m m2 \<and>
      multipartBuffer (MultipartFormData demoEnv (NewRequest []) m1) \<noteq>
      multipartBuffer (MultipartFormData demoEnv (NewRequest []) m2)"
    by (elim conjE) simp
  from t d u have 2: "\<exists>m1 m2 r1 r2. same_map m m1 \<and> same_map m m2 \<and>
      Uploads demoEnv (NewRequest []) m1 = Inr r1 \<and> Uploads demoEnv (NewRequest []) m2 = Inr r2 \<and>
      multipartBuffer r1 \<noteq> multipartBuffer r2"
    by (elim conjE) simp
  from t w have 3: "multipartBuffer (MultipartFormData demoEnv (NewRequest []) [(''a'', ''a.txt'')]) \<noteq>
      multipartBuffer (MultipartFormData (demoEnv\<lparr>randomBoundary := ''OTHER''\<rparr>) (NewRequest [])
        [(''a'', ''a.txt'')])"
    by (elim conjE) simp
  have 4: "multipartBuffer (MultipartFormData demoEnv (NewRequest []) [(''b'', ''b.txt''), (''a'', ''a.txt'')]) \<noteq>
      multipartBuffer (MultipartFormData demoEnv (NewRequest []) m)"
    unfolding m_def by code_simp
  from 1 2 3 4 show ?thesis
    unfolding m_def by (intro conjI)
qed

end
